theory Spec2Isabelle
  imports Complex_Main "HOL-Library.Word" "HOL-Library.Multiset"
begin

section \<open>The type \<^verbatim>\<open>double\<close>\<close>

text \<open>
  Balances and amounts are \<^verbatim>\<open>double\<close>s: IEEE 754 binary64 numbers, with arithmetic that
  rounds to the nearest \<^verbatim>\<open>double\<close> (ties to the even significand). \<open>Finite x\<close> is the
  \<^verbatim>\<open>double\<close> with the value \<open>x\<close>, and \<open>Finite 0\<close> is the zero with the sign bit clear;
  \<open>NegZero\<close> is the zero with the sign bit set. The flag of \<open>Infinity\<close> and of \<open>NaN\<close> is
  the sign bit.
\<close>

datatype double = Finite real | NegZero | Infinity bool | NaN bool

fun value_of :: "double \<Rightarrow> real" where
  "value_of (Finite x) = x"
| "value_of NegZero = 0"
| "value_of (Infinity s) = 0"
| "value_of (NaN s) = 0"

fun is_nan :: "double \<Rightarrow> bool" where
  "is_nan (NaN s) = True"
| "is_nan (Finite x) = False"
| "is_nan NegZero = False"
| "is_nan (Infinity s) = False"

fun is_finite :: "double \<Rightarrow> bool" where
  "is_finite (Finite x) = True"
| "is_finite NegZero = True"
| "is_finite (Infinity s) = False"
| "is_finite (NaN s) = False"

text \<open>
  Rounding to an integer, ties to the even one; and to a \<^verbatim>\<open>double\<close>. For \<open>0 < a\<close>,
  \<open>bin_exponent a\<close> is the \<open>e\<close> with \<open>2 ^ e \<le> a < 2 ^ (e + 1)\<close>. A \<^verbatim>\<open>double\<close> has 53
  significant bits, so the \<^verbatim>\<open>double\<close>s around \<open>a\<close> are the multiples of \<open>2 ^ (e - 52)\<close>;
  below \<open>2 ^ - 1022\<close> (the subnormal numbers) they are the multiples of \<open>2 ^ - 1074\<close>. A
  result of \<open>2 ^ 1024\<close> or more is infinite.
\<close>

definition round_half_even :: "real \<Rightarrow> int" where
  "round_half_even r =
     (let f = \<lfloor>r\<rfloor>; d = r - of_int f
      in if d < 1 / 2 then f else if 1 / 2 < d then f + 1
         else if even f then f else f + 1)"

function bin_exp_up :: "real \<Rightarrow> int" where
  "bin_exp_up x = (if 2 \<le> x then bin_exp_up (x / 2) + 1 else 0)"
  by pat_completeness auto
termination
proof (relation "measure (\<lambda>x. nat \<lfloor>x\<rfloor>)")
  show "wf (measure (\<lambda>x::real. nat \<lfloor>x\<rfloor>))" by simp
next
  fix x :: real
  assume big: "2 \<le> x"
  have "x / 2 \<le> x - 1" using big by simp
  then have "\<lfloor>x / 2\<rfloor> \<le> \<lfloor>x - 1\<rfloor>" by (rule floor_mono)
  also have "\<dots> = \<lfloor>x\<rfloor> - 1" by linarith
  finally have "\<lfloor>x / 2\<rfloor> < \<lfloor>x\<rfloor>" by linarith
  moreover have "0 < \<lfloor>x\<rfloor>" using big by linarith
  ultimately show "(x / 2, x) \<in> measure (\<lambda>x. nat \<lfloor>x\<rfloor>)" by simp
qed

function bin_exp_down :: "real \<Rightarrow> int" where
  "bin_exp_down x = (if 0 < x \<and> x < 1 then bin_exp_down (x * 2) - 1 else 0)"
  by pat_completeness auto
termination
proof (relation "measure (\<lambda>x. nat \<lceil>1 / x\<rceil>)")
  show "wf (measure (\<lambda>x::real. nat \<lceil>1 / x\<rceil>))" by simp
next
  fix x :: real
  assume small: "0 < x \<and> x < 1"
  then have "1 < 1 / x" by simp
  then have c: "2 \<le> \<lceil>1 / x\<rceil>" by linarith
  have "1 / (x * 2) = (1 / x) / 2" by simp
  also have "\<dots> \<le> of_int \<lceil>1 / x\<rceil> / 2" by (simp add: divide_right_mono)
  also have "\<dots> \<le> of_int (\<lceil>1 / x\<rceil> - 1)"
  proof -
    have "r / 2 \<le> r - 1" if "2 \<le> r" for r :: real
      using that by linarith
    moreover from c have "(2::real) \<le> of_int \<lceil>1 / x\<rceil>" by linarith
    ultimately have "real_of_int \<lceil>1 / x\<rceil> / 2 \<le> real_of_int \<lceil>1 / x\<rceil> - 1" by blast
    then show ?thesis by simp
  qed
  finally have "1 / (x * 2) \<le> of_int (\<lceil>1 / x\<rceil> - 1)" .
  then have "\<lceil>1 / (x * 2)\<rceil> \<le> \<lceil>1 / x\<rceil> - 1" by (rule ceiling_le)
  with c have "nat \<lceil>1 / (x * 2)\<rceil> < nat \<lceil>1 / x\<rceil>" by linarith
  then show "(x * 2, x) \<in> measure (\<lambda>x. nat \<lceil>1 / x\<rceil>)"
    unfolding measure_def inv_image_def by blast
qed

declare bin_exp_up.simps [simp del] bin_exp_down.simps [simp del]

definition bin_exponent :: "real \<Rightarrow> int" where
  "bin_exponent a = (if 1 \<le> a then bin_exp_up a else bin_exp_down a)"

definition scale2 :: "real \<Rightarrow> int \<Rightarrow> real" where
  "scale2 x k = (if 0 \<le> k then x * 2 ^ nat k else x / 2 ^ nat (- k))"

text \<open>The \<^verbatim>\<open>double\<close> nearest to \<open>0 \<le> a\<close>, and to any real number.\<close>

definition nearest_double :: "real \<Rightarrow> double" where
  "nearest_double a =
     (if a \<le> 0 then Finite 0
      else let q = max (bin_exponent a) (- 1022) - 52;
               y = scale2 (of_int (round_half_even (scale2 a (- q)))) q
           in if 2 ^ 1024 \<le> y then Infinity False else Finite y)"

fun dneg :: "double \<Rightarrow> double" where
  "dneg (Finite x) = (if x = 0 then NegZero else Finite (- x))"
| "dneg NegZero = Finite 0"
| "dneg (Infinity s) = Infinity (\<not> s)"
| "dneg (NaN s) = NaN (\<not> s)"

definition round_to_double :: "real \<Rightarrow> double" where
  "round_to_double x = (if x < 0 then dneg (nearest_double (- x)) else nearest_double x)"

text \<open>
  \<^verbatim>\<open>x + y\<close> and \<^verbatim>\<open>x - y\<close>. A NaN operand is the result (the first one, when both are).
  Infinities of opposite sign have no sum: the result is the NaN that the processor
  makes, whose sign bit is set on x86-64. A sum that is exactly zero is \<open>Finite 0\<close>
  unless both operands are \<open>NegZero\<close>.
\<close>

definition dadd :: "double \<Rightarrow> double \<Rightarrow> double" where
  "dadd x y =
     (if is_nan x then x else if is_nan y then y
      else (case x of
              Infinity s \<Rightarrow> (case y of Infinity t \<Rightarrow> if s = t then x else NaN True | _ \<Rightarrow> x)
            | _ \<Rightarrow> (case y of
                      Infinity t \<Rightarrow> y
                    | _ \<Rightarrow> if x = NegZero \<and> y = NegZero then NegZero
                           else round_to_double (value_of x + value_of y))))"

definition dsub :: "double \<Rightarrow> double \<Rightarrow> double" where
  "dsub x y = (if is_nan x then x else if is_nan y then y else dadd x (dneg y))"

text \<open>
  \<^verbatim>\<open>x < y\<close> and \<^verbatim>\<open>x <= y\<close>: false when an operand is NaN; the two zeros are equal; an
  infinity with the sign bit set is below, one with the sign bit clear is above every
  finite number.
\<close>

definition dless :: "double \<Rightarrow> double \<Rightarrow> bool" where
  "dless x y \<longleftrightarrow>
     (if is_nan x \<or> is_nan y then False
      else (case x of
              Infinity s \<Rightarrow> (case y of Infinity t \<Rightarrow> s \<and> \<not> t | _ \<Rightarrow> s)
            | _ \<Rightarrow> (case y of Infinity t \<Rightarrow> \<not> t | _ \<Rightarrow> value_of x < value_of y)))"

definition dle :: "double \<Rightarrow> double \<Rightarrow> bool" where
  "dle x y \<longleftrightarrow>
     (if is_nan x \<or> is_nan y then False
      else (case x of
              Infinity s \<Rightarrow> (case y of Infinity t \<Rightarrow> s \<or> \<not> t | _ \<Rightarrow> s)
            | _ \<Rightarrow> (case y of Infinity t \<Rightarrow> \<not> t | _ \<Rightarrow> value_of x \<le> value_of y)))"

text \<open>
  The \<^verbatim>\<open>double\<close>s among the values of the type: those that rounding leaves as they
  are. The literals of the program are rounded when it is compiled.
\<close>

definition is_double :: "double \<Rightarrow> bool" where
  "is_double d \<longleftrightarrow> (case d of Finite x \<Rightarrow> round_to_double x = Finite x | _ \<Rightarrow> True)"


section \<open>The account entity (class BankAccount)\<close>

text \<open>
  The fields of \<^verbatim>\<open>class BankAccount\<close>. \<^verbatim>\<open>int accountNum\<close> is only ever compared for
  equality, printed and parsed, so it is an \<open>int\<close> (the 32-bit range is checked where a
  number is read). \<^verbatim>\<open>size_t pinHash\<close> is a 64-bit word.
\<close>

type_synonym size_t = "64 word"

record BankAccount =
  name :: string
  accountNum :: int
  balance :: double
  pinHash :: size_t

text \<open>
  The exceptions the code throws, by class and message:
  \<^verbatim>\<open>throw invalid_argument("...")\<close> and \<^verbatim>\<open>throw runtime_error("...")\<close>.
\<close>

datatype exn = invalid_argument string | runtime_error string

text \<open>The spec's names for the error kinds, as the code throws them.\<close>

abbreviation InvalidDeposit :: exn where
  "InvalidDeposit \<equiv> invalid_argument ''Deposit must be positive''"

abbreviation InvalidWithdrawal :: exn where
  "InvalidWithdrawal \<equiv> invalid_argument ''Withdrawal must be positive''"

abbreviation InsufficientFunds :: exn where
  "InsufficientFunds \<equiv> runtime_error ''Insufficient balance''"

abbreviation EmptyName :: exn where
  "EmptyName \<equiv> invalid_argument ''Name cannot be empty''"

abbreviation DuplicateAccount :: exn where
  "DuplicateAccount \<equiv> runtime_error ''Account number already exists''"

abbreviation AccountNotFound :: exn where
  "AccountNotFound \<equiv> runtime_error ''One or both accounts not found''"

abbreviation SameAccountTransfer :: exn where
  "SameAccountTransfer \<equiv> runtime_error ''Cannot transfer to same account''"

abbreviation CannotOpenFile :: exn where
  "CannotOpenFile \<equiv> runtime_error ''Cannot open file for saving''"


text \<open>
  \<^verbatim>\<open>hashPIN\<close> is \<^verbatim>\<open>std::hash<string>\<close>, a library function the repository does not
  define: every function that hashes takes it as the parameter \<open>hashPIN\<close>.

  The four-argument constructor stores its arguments and the hash of the PIN; it checks
  nothing.
\<close>

definition BankAccount_new ::
  "(string \<Rightarrow> size_t) \<Rightarrow> string \<Rightarrow> int \<Rightarrow> double \<Rightarrow> string \<Rightarrow> BankAccount" where
  "BankAccount_new hashPIN n ac bal pin =
     \<lparr>name = n, accountNum = ac, balance = bal, pinHash = hashPIN pin\<rparr>"

definition verifyPIN :: "(string \<Rightarrow> size_t) \<Rightarrow> BankAccount \<Rightarrow> string \<Rightarrow> bool" where
  "verifyPIN hashPIN acc pin \<longleftrightarrow> pinHash acc = hashPIN pin"

definition BankAccount_deposit :: "BankAccount \<Rightarrow> double \<Rightarrow> exn + BankAccount" where
  "BankAccount_deposit acc amount =
     (if dle amount (Finite 0) then Inl (invalid_argument ''Deposit must be positive'')
      else Inr (acc\<lparr>balance := dadd (balance acc) amount\<rparr>))"

definition BankAccount_withdraw :: "BankAccount \<Rightarrow> double \<Rightarrow> exn + BankAccount" where
  "BankAccount_withdraw acc amount =
     (if dle amount (Finite 0) then Inl (invalid_argument ''Withdrawal must be positive'')
      else if dless (balance acc) amount then Inl (runtime_error ''Insufficient balance'')
      else Inr (acc\<lparr>balance := dsub (balance acc) amount\<rparr>))"

definition BankAccount_updateName :: "BankAccount \<Rightarrow> string \<Rightarrow> exn + BankAccount" where
  "BankAccount_updateName acc newName =
     (if newName = [] then Inl (invalid_argument ''Name cannot be empty'')
      else Inr (acc\<lparr>name := newName\<rparr>))"

section \<open>The ledger (class BankManagement)\<close>

text \<open>
  The ledger is the vector \<^verbatim>\<open>accounts\<close>. Every operation takes it and returns it,
  together with a report of how the call ended: it ran to its success message
  (\<open>Done\<close>), it printed \<^verbatim>\<open>Account not found.\<close> and returned, it printed
  \<^verbatim>\<open>Authentication failed. Invalid PIN.\<close> and returned, or it threw. A throw keeps the
  vector as it is at that moment (nothing is rolled back).

  \<^verbatim>\<open>authenticate\<close> reads one line from the standard input with \<^verbatim>\<open>getline\<close>; that line
  is the argument \<open>pin\<close> of every operation that authenticates.
\<close>

datatype report = Done | Account_not_found | Authentication_failed | Threw exn

definition authenticate :: "(string \<Rightarrow> size_t) \<Rightarrow> BankAccount \<Rightarrow> string \<Rightarrow> bool" where
  "authenticate hashPIN acc pin = (if \<not> verifyPIN hashPIN acc pin then False else True)"

text \<open>
  \<^verbatim>\<open>ranges::find_if\<close> from the front: the handle is the index of the first account with
  the number.
\<close>

fun findAccount :: "BankAccount list \<Rightarrow> int \<Rightarrow> nat option" where
  "findAccount [] n = None"
| "findAccount (acc # accounts) n =
     (if accountNum acc = n then Some 0 else map_option Suc (findAccount accounts n))"

definition addAccount ::
  "(string \<Rightarrow> size_t) \<Rightarrow> BankAccount list \<Rightarrow> string \<Rightarrow> int \<Rightarrow> double \<Rightarrow> string
     \<Rightarrow> report \<times> BankAccount list" where
  "addAccount hashPIN accounts n ac bal pin =
     (if list_ex (\<lambda>acc. accountNum acc = ac) accounts
      then (Threw (runtime_error ''Account number already exists''), accounts)
      else (Done, accounts @ [BankAccount_new hashPIN n ac bal pin]))"

definition deposit ::
  "(string \<Rightarrow> size_t) \<Rightarrow> BankAccount list \<Rightarrow> int \<Rightarrow> double \<Rightarrow> string
     \<Rightarrow> report \<times> BankAccount list" where
  "deposit hashPIN accounts accNum amount pin =
     (case findAccount accounts accNum of
        None \<Rightarrow> (Account_not_found, accounts)
      | Some i \<Rightarrow>
          if \<not> authenticate hashPIN (accounts ! i) pin then (Authentication_failed, accounts)
          else (case BankAccount_deposit (accounts ! i) amount of
                  Inl e \<Rightarrow> (Threw e, accounts)
                | Inr acc' \<Rightarrow> (Done, accounts[i := acc'])))"

definition withdraw ::
  "(string \<Rightarrow> size_t) \<Rightarrow> BankAccount list \<Rightarrow> int \<Rightarrow> double \<Rightarrow> string
     \<Rightarrow> report \<times> BankAccount list" where
  "withdraw hashPIN accounts accNum amount pin =
     (case findAccount accounts accNum of
        None \<Rightarrow> (Account_not_found, accounts)
      | Some i \<Rightarrow>
          if \<not> authenticate hashPIN (accounts ! i) pin then (Authentication_failed, accounts)
          else (case BankAccount_withdraw (accounts ! i) amount of
                  Inl e \<Rightarrow> (Threw e, accounts)
                | Inr acc' \<Rightarrow> (Done, accounts[i := acc'])))"

text \<open>
  \<^verbatim>\<open>transfer\<close> looks both accounts up first, then compares the numbers, then
  authenticates against the source, then withdraws, then deposits. The deposit reads
  the vector as the withdrawal left it.
\<close>

definition transfer ::
  "(string \<Rightarrow> size_t) \<Rightarrow> BankAccount list \<Rightarrow> int \<Rightarrow> int \<Rightarrow> double \<Rightarrow> string
     \<Rightarrow> report \<times> BankAccount list" where
  "transfer hashPIN accounts fromAcc toAcc amount pin =
     (case findAccount accounts fromAcc of
        None \<Rightarrow> (Threw (runtime_error ''One or both accounts not found''), accounts)
      | Some i \<Rightarrow>
         (case findAccount accounts toAcc of
            None \<Rightarrow> (Threw (runtime_error ''One or both accounts not found''), accounts)
          | Some j \<Rightarrow>
              if fromAcc = toAcc
              then (Threw (runtime_error ''Cannot transfer to same account''), accounts)
              else if \<not> authenticate hashPIN (accounts ! i) pin
              then (Authentication_failed, accounts)
              else (case BankAccount_withdraw (accounts ! i) amount of
                      Inl e \<Rightarrow> (Threw e, accounts)
                    | Inr acc' \<Rightarrow>
                        (case BankAccount_deposit (accounts[i := acc'] ! j) amount of
                           Inl e \<Rightarrow> (Threw e, accounts[i := acc'])
                         | Inr acc'' \<Rightarrow> (Done, accounts[i := acc', j := acc''])))))"

definition updateName ::
  "(string \<Rightarrow> size_t) \<Rightarrow> BankAccount list \<Rightarrow> int \<Rightarrow> string \<Rightarrow> string
     \<Rightarrow> report \<times> BankAccount list" where
  "updateName hashPIN accounts accNum newName pin =
     (case findAccount accounts accNum of
        None \<Rightarrow> (Account_not_found, accounts)
      | Some i \<Rightarrow>
          if \<not> authenticate hashPIN (accounts ! i) pin then (Authentication_failed, accounts)
          else (case BankAccount_updateName (accounts ! i) newName of
                  Inl e \<Rightarrow> (Threw e, accounts)
                | Inr acc' \<Rightarrow> (Done, accounts[i := acc'])))"

text \<open>
  \<^verbatim>\<open>closeAccount\<close> runs its own \<^verbatim>\<open>find_if\<close> with the same predicate and erases the
  element the iterator points at: the vector without position \<open>i\<close>.
\<close>

definition closeAccount ::
  "(string \<Rightarrow> size_t) \<Rightarrow> BankAccount list \<Rightarrow> int \<Rightarrow> string \<Rightarrow> report \<times> BankAccount list" where
  "closeAccount hashPIN accounts accNum pin =
     (case findAccount accounts accNum of
        None \<Rightarrow> (Account_not_found, accounts)
      | Some i \<Rightarrow>
          if \<not> authenticate hashPIN (accounts ! i) pin then (Authentication_failed, accounts)
          else (Done, take i accounts @ drop (Suc i) accounts))"

text \<open>
  \<^verbatim>\<open>showHighBalance\<close> prints the accounts whose balance is at least the threshold, in
  the vector's order.
\<close>

definition showHighBalance :: "BankAccount list \<Rightarrow> double \<Rightarrow> BankAccount list" where
  "showHighBalance accounts threshold = filter (\<lambda>acc. dle threshold (balance acc)) accounts"

section \<open>The text format (BankAccount::save and BankAccount::load)\<close>

text \<open>
  The stream operators are library code. They are modelled for the classic "C" locale
  and the default format flags, which is how the code uses its streams: decimal
  integers, \<^verbatim>\<open>%g\<close> with precision 6 for a \<^verbatim>\<open>double\<close>, whitespace skipped before every
  extraction.
\<close>

subsection \<open>Writing: \<^verbatim>\<open>operator<<\<close>\<close>

definition digit_char :: "nat \<Rightarrow> char" where
  "digit_char d = ''0123456789'' ! d"

fun show_nat :: "nat \<Rightarrow> string" where
  "show_nat n =
     (if n < 10 then [digit_char n] else show_nat (n div 10) @ [digit_char (n mod 10)])"

declare show_nat.simps [simp del]

definition show_int :: "int \<Rightarrow> string" where
  "show_int i = (if i < 0 then CHR ''-'' # show_nat (nat (- i)) else show_nat (nat i))"

definition show_size_t :: "size_t \<Rightarrow> string" where
  "show_size_t w = show_nat (unat w)"

text \<open>
  A \<^verbatim>\<open>double\<close> is written as \<^verbatim>\<open>printf("%.6g")\<close> writes it. A finite value other than zero
  is rounded to six significant decimal digits (ties to even); with \<open>X\<close> the decimal
  exponent of the rounded value, fixed notation is used when \<open>-4 \<le> X < 6\<close> and
  scientific notation otherwise; trailing zeros of the fraction and a bare decimal
  point are dropped. The zeros are written \<^verbatim>\<open>0\<close> and \<^verbatim>\<open>-0\<close>, an infinity \<^verbatim>\<open>inf\<close> and a NaN
  \<^verbatim>\<open>nan\<close>, after a minus sign when the sign bit is set.
\<close>

function dec_exp_up :: "real \<Rightarrow> int" where
  "dec_exp_up x = (if 10 \<le> x then dec_exp_up (x / 10) + 1 else 0)"
  by pat_completeness auto
termination
proof (relation "measure (\<lambda>x. nat \<lfloor>x\<rfloor>)")
  show "wf (measure (\<lambda>x::real. nat \<lfloor>x\<rfloor>))" by simp
next
  fix x :: real
  assume big: "10 \<le> x"
  have "x / 10 \<le> x - 9" using big by simp
  then have "\<lfloor>x / 10\<rfloor> \<le> \<lfloor>x - 9\<rfloor>" by (rule floor_mono)
  also have "\<dots> = \<lfloor>x\<rfloor> - 9" by linarith
  finally have "\<lfloor>x / 10\<rfloor> < \<lfloor>x\<rfloor>" by linarith
  moreover have "0 < \<lfloor>x\<rfloor>" using big by linarith
  ultimately show "(x / 10, x) \<in> measure (\<lambda>x. nat \<lfloor>x\<rfloor>)" by simp
qed

function dec_exp_down :: "real \<Rightarrow> int" where
  "dec_exp_down x = (if 0 < x \<and> x < 1 then dec_exp_down (x * 10) - 1 else 0)"
  by pat_completeness auto
termination
proof (relation "measure (\<lambda>x. nat \<lceil>1 / x\<rceil>)")
  show "wf (measure (\<lambda>x::real. nat \<lceil>1 / x\<rceil>))" by simp
next
  fix x :: real
  assume small: "0 < x \<and> x < 1"
  then have "1 < 1 / x" by simp
  then have c: "2 \<le> \<lceil>1 / x\<rceil>" by linarith
  have "1 / (x * 10) = (1 / x) / 10" by simp
  also have "\<dots> \<le> of_int \<lceil>1 / x\<rceil> / 10" by (simp add: divide_right_mono)
  also have "\<dots> \<le> of_int (\<lceil>1 / x\<rceil> - 1)"
  proof -
    have "r / 10 \<le> r - 1" if "2 \<le> r" for r :: real
      using that by linarith
    moreover from c have "(2::real) \<le> of_int \<lceil>1 / x\<rceil>" by linarith
    ultimately have "real_of_int \<lceil>1 / x\<rceil> / 10 \<le> real_of_int \<lceil>1 / x\<rceil> - 1" by blast
    then show ?thesis by simp
  qed
  finally have "1 / (x * 10) \<le> of_int (\<lceil>1 / x\<rceil> - 1)" .
  then have "\<lceil>1 / (x * 10)\<rceil> \<le> \<lceil>1 / x\<rceil> - 1" by (rule ceiling_le)
  with c have "nat \<lceil>1 / (x * 10)\<rceil> < nat \<lceil>1 / x\<rceil>" by linarith
  then show "(x * 10, x) \<in> measure (\<lambda>x. nat \<lceil>1 / x\<rceil>)"
    unfolding measure_def inv_image_def by blast
qed

declare dec_exp_up.simps [simp del] dec_exp_down.simps [simp del]

text \<open>For \<open>0 < a\<close>: the \<open>e\<close> with \<open>10 ^ e \<le> a < 10 ^ (e + 1)\<close>.\<close>

definition dec_exponent :: "real \<Rightarrow> int" where
  "dec_exponent a = (if 1 \<le> a then dec_exp_up a else dec_exp_down a)"

definition scale10 :: "real \<Rightarrow> int \<Rightarrow> real" where
  "scale10 x k = (if 0 \<le> k then x * 10 ^ nat k else x / 10 ^ nat (- k))"

text \<open>
  The six significant digits \<open>m\<close> (\<open>100000 \<le> m < 1000000\<close>) of \<open>0 < a\<close> and the exponent
  \<open>X\<close> of the rounded value: \<open>a\<close> rounds to \<open>m * 10 ^ (X - 5)\<close>.
\<close>

definition sig6 :: "real \<Rightarrow> int \<times> int" where
  "sig6 a =
     (let e = dec_exponent a; m = round_half_even (scale10 a (5 - e))
      in if m = 1000000 then (100000, e + 1) else (m, e))"

definition strip_zeros :: "string \<Rightarrow> string" where
  "strip_zeros ds = rev (dropWhile (\<lambda>c. c = CHR ''0'') (rev ds))"

definition fraction :: "string \<Rightarrow> string" where
  "fraction ds = (let f = strip_zeros ds in if f = [] then [] else CHR ''.'' # f)"

definition show_exponent :: "int \<Rightarrow> string" where
  "show_exponent X =
     CHR ''e'' # (if X < 0 then CHR ''-'' else CHR ''+'') #
       (let ds = show_nat (nat \<bar>X\<bar>) in if length ds < 2 then CHR ''0'' # ds else ds)"

definition show_g6 :: "real \<Rightarrow> string" where
  "show_g6 a =
     (case sig6 a of (m, X) \<Rightarrow>
        let ds = show_nat (nat m)
        in if X < - 4 \<or> 6 \<le> X then take 1 ds @ fraction (drop 1 ds) @ show_exponent X
           else if 0 \<le> X then take (nat X + 1) ds @ fraction (drop (nat X + 1) ds)
           else ''0.'' @ replicate (nat (- X - 1)) (CHR ''0'') @ strip_zeros ds)"

definition show_double :: "double \<Rightarrow> string" where
  "show_double d =
     (case d of
        Finite x \<Rightarrow>
          if x = 0 then ''0'' else if x < 0 then CHR ''-'' # show_g6 (- x) else show_g6 x
      | NegZero \<Rightarrow> ''-0''
      | Infinity s \<Rightarrow> if s then ''-inf'' else ''inf''
      | NaN s \<Rightarrow> if s then ''-nan'' else ''nan'')"

text \<open>
  \<^verbatim>\<open>out << quoted(name)\<close>: the delimiter, the characters with every delimiter and every
  escape character preceded by the escape character, the delimiter. The delimiter is
  the double quote (0x22), the escape character the backslash (0x5C).
\<close>

definition delim :: char where
  "delim = CHR 0x22"

definition escape :: char where
  "escape = CHR 0x5C"

definition show_quoted :: "string \<Rightarrow> string" where
  "show_quoted s =
     delim # concat (map (\<lambda>c. if c = delim \<or> c = escape then [escape, c] else [c]) s) @ [delim]"

text \<open>
  \<^verbatim>\<open>BankAccount::save\<close>:
  \<^verbatim>\<open>out << accountNum << ' ' << balance << ' ' << pinHash << ' ' << quoted(name) << '\n'\<close>.
\<close>

definition save :: "BankAccount \<Rightarrow> string" where
  "save acc =
     show_int (accountNum acc) @ '' '' @ show_double (balance acc) @ '' '' @
     show_size_t (pinHash acc) @ '' '' @ show_quoted (name acc) @ [CHR 0x0A]"

subsection \<open>Reading: \<^verbatim>\<open>operator>>\<close>\<close>

text \<open>
  An extraction takes the characters not yet read and returns the value and the
  characters left, or \<open>None\<close> when it sets \<^verbatim>\<open>failbit\<close>. In the chain
  \<^verbatim>\<open>in >> ac >> bal >> hash >> quoted(n)\<close> an extraction on a failed stream does nothing,
  and the condition is false when any of them failed.
\<close>

definition isdigit :: "char \<Rightarrow> bool" where
  "isdigit c \<longleftrightarrow> c \<in> set ''0123456789''"

definition isspace :: "char \<Rightarrow> bool" where
  "isspace c \<longleftrightarrow> c \<in> set [CHR 0x20, CHR 0x09, CHR 0x0A, CHR 0x0B, CHR 0x0C, CHR 0x0D]"

definition skipws :: "string \<Rightarrow> string" where
  "skipws s = dropWhile isspace s"

definition digit_val :: "char \<Rightarrow> nat" where
  "digit_val c = of_char c - 48"

definition digits_val :: "string \<Rightarrow> nat" where
  "digits_val ds = foldl (\<lambda>a c. 10 * a + digit_val c) 0 ds"

definition read_sign :: "string \<Rightarrow> bool \<times> string" where
  "read_sign s =
     (case s of
        [] \<Rightarrow> (False, [])
      | c # r \<Rightarrow> if c = CHR ''-'' then (True, r) else if c = CHR ''+'' then (False, r)
                 else (False, s))"

definition read_digits :: "string \<Rightarrow> (nat \<times> string) option" where
  "read_digits s =
     (if takeWhile isdigit s = [] then None
      else Some (digits_val (takeWhile isdigit s), dropWhile isdigit s))"

text \<open>
  \<^verbatim>\<open>in >> ac\<close> for an \<^verbatim>\<open>int\<close>: an optional sign and at least one digit; a value outside
  the 32-bit range sets \<^verbatim>\<open>failbit\<close>.
\<close>

definition extract_int :: "string \<Rightarrow> (int \<times> string) option" where
  "extract_int s =
     (case read_sign (skipws s) of (neg, s1) \<Rightarrow>
        (case read_digits s1 of
           None \<Rightarrow> None
         | Some (v, rest) \<Rightarrow>
             let i = (if neg then - int v else int v)
             in if - (2 ^ 31) \<le> i \<and> i < 2 ^ 31 then Some (i, rest) else None))"

text \<open>
  \<^verbatim>\<open>in >> hash\<close> for a \<^verbatim>\<open>size_t\<close>: an optional sign and at least one digit; digits
  that do not fit 64 bits set \<^verbatim>\<open>failbit\<close>; a minus sign negates the value modulo
  \<open>2 ^ 64\<close>, as \<^verbatim>\<open>strtoull\<close> does.
\<close>

definition extract_size_t :: "string \<Rightarrow> (size_t \<times> string) option" where
  "extract_size_t s =
     (case read_sign (skipws s) of (neg, s1) \<Rightarrow>
        (case read_digits s1 of
           None \<Rightarrow> None
         | Some (v, rest) \<Rightarrow>
             if v < 2 ^ 64 then Some (if neg then - word_of_nat v else word_of_nat v, rest)
             else None))"

text \<open>
  \<^verbatim>\<open>in >> bal\<close> for a \<^verbatim>\<open>double\<close>: an optional sign, digits with an optional decimal
  point (at least one digit), and an optional exponent: \<^verbatim>\<open>e\<close> or \<^verbatim>\<open>E\<close>, an optional
  sign and at least one digit (an exponent letter without digits sets \<^verbatim>\<open>failbit\<close>).
  \<open>read_decimal\<close> gives the sign and the decimal number that the characters denote.
  The value extracted is the \<^verbatim>\<open>double\<close> nearest to that number, as \<^verbatim>\<open>strtod\<close> returns
  it, with the sign; a number that rounds to an infinity sets \<^verbatim>\<open>failbit\<close>. (So do the
  words \<^verbatim>\<open>inf\<close> and \<^verbatim>\<open>nan\<close>: they have no digit.)
\<close>

definition read_point :: "string \<Rightarrow> string \<times> string" where
  "read_point s =
     (case s of
        [] \<Rightarrow> ([], [])
      | c # r \<Rightarrow> if c = CHR ''.'' then (takeWhile isdigit r, dropWhile isdigit r) else ([], s))"

definition read_exponent :: "string \<Rightarrow> (int \<times> string) option" where
  "read_exponent s =
     (case s of
        [] \<Rightarrow> Some (0, [])
      | c # r \<Rightarrow>
          if c = CHR ''e'' \<or> c = CHR ''E''
          then (case read_sign r of (eneg, r1) \<Rightarrow>
                  (case read_digits r1 of
                     None \<Rightarrow> None
                   | Some (ev, rest) \<Rightarrow> Some (if eneg then - int ev else int ev, rest)))
          else Some (0, s))"

definition read_decimal :: "string \<Rightarrow> (bool \<times> real \<times> string) option" where
  "read_decimal s =
     (case read_sign (skipws s) of (neg, s1) \<Rightarrow>
        (case read_point (dropWhile isdigit s1) of (fp, s2) \<Rightarrow>
           let ip = takeWhile isdigit s1
           in if ip = [] \<and> fp = [] then None
              else (case read_exponent s2 of
                      None \<Rightarrow> None
                    | Some (ex, rest) \<Rightarrow>
                        Some (neg, scale10 (real (digits_val (ip @ fp)) / 10 ^ length fp) ex,
                              rest))))"

definition extract_double :: "string \<Rightarrow> (double \<times> string) option" where
  "extract_double s =
     (case read_decimal s of
        None \<Rightarrow> None
      | Some (neg, v, rest) \<Rightarrow>
          (case nearest_double v of
             Infinity t \<Rightarrow> None
           | d \<Rightarrow> Some (if neg then dneg d else d, rest)))"

text \<open>
  \<^verbatim>\<open>in >> quoted(n)\<close>: after whitespace, a first character other than the delimiter
  makes it read a plain word (up to the next whitespace); otherwise it reads, without
  skipping whitespace, up to the closing delimiter, an escape character standing for
  the character after it. The end of the input before the closing delimiter sets
  \<^verbatim>\<open>failbit\<close>.
\<close>

fun read_quoted :: "string \<Rightarrow> (string \<times> string) option" where
  "read_quoted [] = None"
| "read_quoted (c # r) =
     (if c = escape
      then (case r of
              [] \<Rightarrow> None
            | d # r' \<Rightarrow>
                (case read_quoted r' of None \<Rightarrow> None | Some (n, rest) \<Rightarrow> Some (d # n, rest)))
      else if c = delim then Some ([], r)
      else (case read_quoted r of None \<Rightarrow> None | Some (n, rest) \<Rightarrow> Some (c # n, rest)))"

definition extract_quoted :: "string \<Rightarrow> (string \<times> string) option" where
  "extract_quoted s =
     (case skipws s of
        [] \<Rightarrow> None
      | c # r \<Rightarrow>
          if c \<noteq> delim
          then Some (takeWhile (\<lambda>x. \<not> isspace x) (c # r), dropWhile (\<lambda>x. \<not> isspace x) (c # r))
          else read_quoted r)"

text \<open>\<^verbatim>\<open>BankAccount::load\<close>: the four extractions, then the default-constructed account
  with its four fields assigned.\<close>

definition load :: "string \<Rightarrow> (BankAccount \<times> string) option" where
  "load s =
     (case extract_int s of
        None \<Rightarrow> None
      | Some (ac, s1) \<Rightarrow>
         (case extract_double s1 of
            None \<Rightarrow> None
          | Some (bal, s2) \<Rightarrow>
             (case extract_size_t s2 of
                None \<Rightarrow> None
              | Some (hash, s3) \<Rightarrow>
                 (case extract_quoted s3 of
                    None \<Rightarrow> None
                  | Some (n, s4) \<Rightarrow>
                      Some (\<lparr>name = n, accountNum = ac, balance = bal, pinHash = hash\<rparr>, s4)))))"

text \<open>Every extraction returns a part of what it was given; an integer takes at least
  its first digit.\<close>

lemma length_skipws: "length (skipws s) \<le> length s"
  by (simp add: skipws_def length_dropWhile_le)

lemma length_read_sign: "read_sign s = (neg, r) \<Longrightarrow> length r \<le> length s"
  by (auto simp: read_sign_def split: list.splits if_splits)

lemma length_read_digits: "read_digits s = Some (v, r) \<Longrightarrow> length r < length s"
proof -
  assume "read_digits s = Some (v, r)"
  then have ne: "takeWhile isdigit s \<noteq> []" and r: "r = dropWhile isdigit s"
    by (auto simp: read_digits_def split: if_splits)
  have "length (takeWhile isdigit s) + length (dropWhile isdigit s) = length s"
    by (metis length_append takeWhile_dropWhile_id)
  moreover have "0 < length (takeWhile isdigit s)" using ne by simp
  ultimately show ?thesis unfolding r by linarith
qed

lemma length_extract_int: "extract_int s = Some (i, r) \<Longrightarrow> length r < length s"
proof -
  assume a: "extract_int s = Some (i, r)"
  obtain neg s1 where s1: "read_sign (skipws s) = (neg, s1)" by force
  with a obtain v where "read_digits s1 = Some (v, r)"
    by (auto simp: extract_int_def Let_def split: option.splits if_splits)
  then have "length r < length s1" by (rule length_read_digits)
  also have "\<dots> \<le> length (skipws s)" using s1 by (rule length_read_sign)
  also have "\<dots> \<le> length s" by (rule length_skipws)
  finally show ?thesis .
qed

lemma length_extract_size_t: "extract_size_t s = Some (w, r) \<Longrightarrow> length r \<le> length s"
proof -
  assume a: "extract_size_t s = Some (w, r)"
  obtain neg s1 where s1: "read_sign (skipws s) = (neg, s1)" by force
  with a obtain v where "read_digits s1 = Some (v, r)"
    by (auto simp: extract_size_t_def split: option.splits if_splits)
  then have "length r < length s1" by (rule length_read_digits)
  also have "\<dots> \<le> length (skipws s)" using s1 by (rule length_read_sign)
  also have "\<dots> \<le> length s" by (rule length_skipws)
  finally show ?thesis by simp
qed

lemma length_read_point: "read_point s = (fp, r) \<Longrightarrow> length r \<le> length s"
  by (auto simp: read_point_def split: list.splits if_splits
           intro: le_SucI length_dropWhile_le)

lemma length_read_exponent: "read_exponent s = Some (ex, r) \<Longrightarrow> length r \<le> length s"
proof (cases s)
  case Nil
  assume "read_exponent s = Some (ex, r)"
  with Nil show ?thesis by (simp add: read_exponent_def)
next
  case (Cons c r0)
  assume a: "read_exponent s = Some (ex, r)"
  show ?thesis
  proof (cases "c = CHR ''e'' \<or> c = CHR ''E''")
    case False
    with a Cons show ?thesis by (auto simp: read_exponent_def)
  next
    case True
    obtain eneg r1 where r1: "read_sign r0 = (eneg, r1)" by force
    with a Cons True obtain ev where "read_digits r1 = Some (ev, r)"
      by (auto simp: read_exponent_def split: option.splits)
    then have "length r < length r1" by (rule length_read_digits)
    also have "\<dots> \<le> length r0" using r1 by (rule length_read_sign)
    finally show ?thesis using Cons by simp
  qed
qed

lemma length_read_decimal: "read_decimal s = Some (n, v, r) \<Longrightarrow> length r \<le> length s"
proof -
  assume a: "read_decimal s = Some (n, v, r)"
  obtain neg s1 where s1: "read_sign (skipws s) = (neg, s1)" by force
  obtain fp s2 where s2: "read_point (dropWhile isdigit s1) = (fp, s2)" by force
  from a s1 s2 obtain ex where "read_exponent s2 = Some (ex, r)"
    by (auto simp: read_decimal_def Let_def split: option.splits if_splits)
  then have "length r \<le> length s2" by (rule length_read_exponent)
  also have "\<dots> \<le> length (dropWhile isdigit s1)" using s2 by (rule length_read_point)
  also have "\<dots> \<le> length s1" by (rule length_dropWhile_le)
  also have "\<dots> \<le> length (skipws s)" using s1 by (rule length_read_sign)
  also have "\<dots> \<le> length s" by (rule length_skipws)
  finally show ?thesis .
qed

lemma length_extract_double: "extract_double s = Some (x, r) \<Longrightarrow> length r \<le> length s"
  by (auto simp: extract_double_def split: option.splits double.splits
           dest: length_read_decimal)

lemma length_read_quoted: "read_quoted s = Some (n, r) \<Longrightarrow> length r \<le> length s"
  by (induction s arbitrary: n rule: read_quoted.induct)
     (fastforce split: if_splits list.splits option.splits)+

lemma length_extract_quoted: "extract_quoted s = Some (n, r) \<Longrightarrow> length r \<le> length s"
proof -
  assume a: "extract_quoted s = Some (n, r)"
  show ?thesis
  proof (cases "skipws s")
    case Nil
    with a show ?thesis by (simp add: extract_quoted_def)
  next
    case (Cons c r0)
    have "length r \<le> length (skipws s)"
    proof (cases "c = delim")
      case True
      with a Cons have "read_quoted r0 = Some (n, r)" by (simp add: extract_quoted_def)
      then have "length r \<le> length r0" by (rule length_read_quoted)
      with Cons show ?thesis by simp
    next
      case False
      with a Cons have "r = dropWhile (\<lambda>x. \<not> isspace x) (c # r0)"
        by (simp add: extract_quoted_def)
      with Cons show ?thesis by (metis length_dropWhile_le)
    qed
    also have "\<dots> \<le> length s" by (rule length_skipws)
    finally show ?thesis .
  qed
qed

lemma length_load: "load s = Some (acc, r) \<Longrightarrow> length r < length s"
proof -
  assume "load s = Some (acc, r)"
  then obtain ac s1 bal s2 hash s3 n where
    "extract_int s = Some (ac, s1)" "extract_double s1 = Some (bal, s2)"
    "extract_size_t s2 = Some (hash, s3)" "extract_quoted s3 = Some (n, r)"
    by (auto simp: load_def split: option.splits)
  then show ?thesis
    using length_extract_int [of s ac s1] length_extract_double [of s1 bal s2]
      length_extract_size_t [of s2 hash s3] length_extract_quoted [of s3 n r]
    by linarith
qed

section \<open>Persistence (saveToFile and loadFromFile)\<close>

text \<open>
  The file system maps a path to the contents of the file there, or to \<open>None\<close> when
  \<^verbatim>\<open>fs::exists\<close> is false.

  \<^verbatim>\<open>saveToFile\<close>: whether \<^verbatim>\<open>ofstream out(filename)\<close> opens is the environment's answer,
  the argument \<open>opens\<close>. An opened file is truncated and receives every account's line,
  in the vector's order.
\<close>

type_synonym filesystem = "string \<rightharpoonup> string"

definition saveToFile ::
  "bool \<Rightarrow> filesystem \<Rightarrow> string \<Rightarrow> BankAccount list \<Rightarrow> report \<times> filesystem" where
  "saveToFile opens files filename accounts =
     (if \<not> opens then (Threw (runtime_error ''Cannot open file for saving''), files)
      else (Done, files(filename \<mapsto> concat (map save accounts))))"

text \<open>
  The loop of \<^verbatim>\<open>loadFromFile\<close>: \<^verbatim>\<open>load\<close> until it returns \<^verbatim>\<open>nullopt\<close>, each account
  pushed to the back. It ends because every successful \<^verbatim>\<open>load\<close> takes characters.
\<close>

function loadAll :: "string \<Rightarrow> BankAccount list" where
  "loadAll s = (case load s of None \<Rightarrow> [] | Some (acc, rest) \<Rightarrow> acc # loadAll rest)"
  by pat_completeness auto
termination loadAll
  by (relation "measure length") (auto dest: length_load)

declare loadAll.simps [simp del]

text \<open>
  \<^verbatim>\<open>loadFromFile\<close> returns at once when the path does not exist; otherwise it clears
  the vector and runs the loop on the file's contents. (A path that exists and cannot
  be read behaves as an empty file: the first extraction fails.)
\<close>

definition loadFromFile :: "filesystem \<Rightarrow> string \<Rightarrow> BankAccount list \<Rightarrow> BankAccount list" where
  "loadFromFile files filename accounts =
     (case files filename of None \<Rightarrow> accounts | Some content \<Rightarrow> loadAll content)"

section \<open>The prompts of \<^verbatim>\<open>main\<close>\<close>










section \<open>Sorting\<close>

text \<open>
  \<^verbatim>\<open>sortAccountsByBalance\<close> calls \<^verbatim>\<open>ranges::sort(accounts, {}, &BankAccount::getBalance)\<close>,
  a library algorithm. The C++ standard gives it this contract: afterwards the range
  holds the same elements, ordered by \<^verbatim>\<open>less\<close> on the projection. The relation holds
  between the vector before and every vector that meets the contract.
\<close>

definition sortAccountsByBalance :: "BankAccount list \<Rightarrow> BankAccount list \<Rightarrow> bool" where
  "sortAccountsByBalance accounts accounts' \<longleftrightarrow>
     mset accounts' = mset accounts \<and>
     sorted_wrt (\<lambda>a b. \<not> dless (balance b) (balance a)) accounts'"

section \<open>Invariants and sequences of operations\<close>

text \<open>
  The two invariants of the specification's data model, as predicates on the vector.
  \<^verbatim>\<open>balance >= 0\<close> is the comparison of \<^verbatim>\<open>double\<close>s: it is false of a NaN.
\<close>

definition balances_nonneg :: "BankAccount list \<Rightarrow> bool" where
  "balances_nonneg accounts \<longleftrightarrow> list_all (\<lambda>acc. dle (Finite 0) (balance acc)) accounts"

definition numbers_unique :: "BankAccount list \<Rightarrow> bool" where
  "numbers_unique accounts \<longleftrightarrow> distinct (map accountNum accounts)"

text \<open>
  Account numbers are \<^verbatim>\<open>int\<close>s in the program (32 bits); the model's are integers, and
  this says that they are in the range of an \<^verbatim>\<open>int\<close>.
\<close>

definition numbers_fit_int :: "BankAccount list \<Rightarrow> bool" where
  "numbers_fit_int accounts \<longleftrightarrow>
     list_all (\<lambda>acc. - (2 ^ 31) \<le> accountNum acc \<and> accountNum acc < 2 ^ 31) accounts"

text \<open>
  The ledgers that calls of the operations build from the empty vector of a new
  \<^verbatim>\<open>BankManagement\<close>, as long as every existing file that is loaded is one that
  \<^verbatim>\<open>saveToFile\<close> wrote from such a ledger. A call counts however it ends (success, a
  refusal or a throw), with any arguments.
\<close>

inductive reachable :: "(string \<Rightarrow> size_t) \<Rightarrow> BankAccount list \<Rightarrow> bool"
  for hashPIN :: "string \<Rightarrow> size_t" where
  fresh: "reachable hashPIN []"
| by_addAccount:
    "reachable hashPIN accounts \<Longrightarrow>
     reachable hashPIN (snd (addAccount hashPIN accounts n ac bal pin))"
| by_deposit:
    "reachable hashPIN accounts \<Longrightarrow>
     reachable hashPIN (snd (deposit hashPIN accounts k amount pin))"
| by_withdraw:
    "reachable hashPIN accounts \<Longrightarrow>
     reachable hashPIN (snd (withdraw hashPIN accounts k amount pin))"
| by_transfer:
    "reachable hashPIN accounts \<Longrightarrow>
     reachable hashPIN (snd (transfer hashPIN accounts k k' amount pin))"
| by_updateName:
    "reachable hashPIN accounts \<Longrightarrow>
     reachable hashPIN (snd (updateName hashPIN accounts k newName pin))"
| by_closeAccount:
    "reachable hashPIN accounts \<Longrightarrow>
     reachable hashPIN (snd (closeAccount hashPIN accounts k pin))"
| by_sortAccountsByBalance:
    "reachable hashPIN accounts \<Longrightarrow> sortAccountsByBalance accounts accounts' \<Longrightarrow>
     reachable hashPIN accounts'"
| by_loadFromFile_missing:
    "reachable hashPIN accounts \<Longrightarrow> files filename = None \<Longrightarrow>
     reachable hashPIN (loadFromFile files filename accounts)"
| by_saveToFile_loadFromFile:
    "reachable hashPIN accounts \<Longrightarrow> numbers_fit_int accounts \<Longrightarrow>
     reachable hashPIN
       (loadFromFile (snd (saveToFile True files filename accounts)) filename others)"

section \<open>What a saved ledger is read back as\<close>

text \<open>
  The number that the text written for a balance \<open>0 < a\<close> denotes: \<open>a\<close> rounded to six
  significant decimal digits, \<open>m * 10 ^ (X - 5)\<close>. Reading gives the \<^verbatim>\<open>double\<close> nearest to
  that number. The text of an infinity or a NaN cannot be read, and \<^verbatim>\<open>loadFromFile\<close>
  stops at the first line that cannot be read.
\<close>

definition value6 :: "real \<Rightarrow> real" where
  "value6 a = (case sig6 a of (m, X) \<Rightarrow> scale10 (real_of_int m) (X - 5))"

definition reload_balance :: "double \<Rightarrow> double option" where
  "reload_balance d =
     (case d of
        Finite x \<Rightarrow>
          if x = 0 then Some (Finite 0)
          else (case nearest_double (value6 \<bar>x\<bar>) of
                  Infinity t \<Rightarrow> None
                | r \<Rightarrow> Some (if x < 0 then dneg r else r))
      | NegZero \<Rightarrow> Some NegZero
      | Infinity s \<Rightarrow> None
      | NaN s \<Rightarrow> None)"

fun reloaded :: "BankAccount list \<Rightarrow> BankAccount list" where
  "reloaded [] = []"
| "reloaded (acc # accounts) =
     (case reload_balance (balance acc) of
        None \<Rightarrow> []
      | Some b \<Rightarrow> acc\<lparr>balance := b\<rparr> # reloaded accounts)"

section \<open>Sample data\<close>

text \<open>
  A stand-in for \<^verbatim>\<open>std::hash<string>\<close>, used only to run the theorems on concrete
  ledgers: it reads the PIN as a decimal number. Alice and Bob are the accounts of the
  specification's example scenario; Carol holds what Bob holds.
\<close>

definition demo_hash :: "string \<Rightarrow> size_t" where
  "demo_hash pin = word_of_nat (digits_val pin)"

definition alice :: BankAccount where
  "alice = BankAccount_new demo_hash ''Alice'' 1001 (Finite 100) ''1234''"

definition bob :: BankAccount where
  "bob = BankAccount_new demo_hash ''Bob'' 1002 (Finite 50) ''5678''"

definition carol :: BankAccount where
  "carol = BankAccount_new demo_hash ''Carol'' 1003 (Finite 50) ''4321''"

text \<open>Two accounts with the same number, and the file \<^verbatim>\<open>saveToFile\<close> writes for them.\<close>

definition twin_a :: BankAccount where
  "twin_a = \<lparr>name = ''first'', accountNum = 7, balance = Finite 10, pinHash = 1234\<rparr>"

definition twin_b :: BankAccount where
  "twin_b = \<lparr>name = ''second'', accountNum = 7, balance = Finite 20, pinHash = 5678\<rparr>"

definition twin_file_rest :: string where
  "twin_file_rest = [CHR 0x0A] @ ''7 20 5678 '' @ [CHR 0x22] @ ''second'' @ [CHR 0x22, CHR 0x0A]"

definition twin_file :: string where
  "twin_file = ''7 10 1234 '' @ [CHR 0x22] @ ''first'' @ [CHR 0x22] @ twin_file_rest"

text \<open>
  An account that holds 1 and an account that holds \<open>10 ^ 16\<close>, where the \<^verbatim>\<open>double\<close>s are
  2 apart.
\<close>

definition small_account :: BankAccount where
  "small_account = \<lparr>name = ''small'', accountNum = 1, balance = Finite 1, pinHash = 1234\<rparr>"

definition large_account :: BankAccount where
  "large_account = \<lparr>name = ''large'', accountNum = 2, balance = Finite (10 ^ 16), pinHash = 5678\<rparr>"

text \<open>A file with one line, whose balance is negative.\<close>

definition overdrawn_file :: string where
  "overdrawn_file = ''1 -10 1234 '' @ [CHR 0x22] @ ''x'' @ [CHR 0x22, CHR 0x0A]"

text \<open>Alice with a balance of seven digits, and the line \<^verbatim>\<open>save\<close> writes for her.\<close>

definition rich_alice :: BankAccount where
  "rich_alice = \<lparr>name = ''Alice'', accountNum = 1001, balance = Finite 1234567, pinHash = 1234\<rparr>"

definition rich_alice_line :: string where
  "rich_alice_line = ''1001 1.23457e+06 1234 '' @ [CHR 0x22] @ ''Alice'' @ [CHR 0x22, CHR 0x0A]"

section \<open>Facts about the sample data\<close>

lemma digits_val_1234: "digits_val ''1234'' = 1234"
  by (simp add: digits_val_def digit_val_def)

lemma digits_val_5678: "digits_val ''5678'' = 5678"
  by (simp add: digits_val_def digit_val_def)

lemma digits_val_4321: "digits_val ''4321'' = 4321"
  by (simp add: digits_val_def digit_val_def)

lemma demo_hash_1234: "demo_hash ''1234'' = 1234"
  by (simp add: demo_hash_def digits_val_1234)

lemma demo_hash_5678: "demo_hash ''5678'' = 5678"
  by (simp add: demo_hash_def digits_val_5678)

lemma demo_hash_4321: "demo_hash ''4321'' = 4321"
  by (simp add: demo_hash_def digits_val_4321)

lemma alice_fields:
  "alice = \<lparr>name = ''Alice'', accountNum = 1001, balance = Finite 100, pinHash = 1234\<rparr>"
  by (simp add: alice_def BankAccount_new_def demo_hash_1234)

lemma bob_fields:
  "bob = \<lparr>name = ''Bob'', accountNum = 1002, balance = Finite 50, pinHash = 5678\<rparr>"
  by (simp add: bob_def BankAccount_new_def demo_hash_5678)

lemma carol_fields:
  "carol = \<lparr>name = ''Carol'', accountNum = 1003, balance = Finite 50, pinHash = 4321\<rparr>"
  by (simp add: carol_def BankAccount_new_def demo_hash_4321)

section \<open>Facts about \<^verbatim>\<open>double\<close>s\<close>

lemmas double_simps =
  dadd_def dsub_def dle_def dless_def round_to_double_def nearest_double_def
  bin_exponent_def bin_exp_up.simps bin_exp_down.simps scale2_def round_half_even_def Let_def

lemma round_half_even_nonneg: "0 \<le> r \<Longrightarrow> 0 \<le> round_half_even r"
  by (auto simp: round_half_even_def Let_def)

lemma scale2_nonneg: "0 \<le> x \<Longrightarrow> 0 \<le> scale2 x k"
  by (simp add: scale2_def)

lemma nearest_double_cases:
  "(\<exists>y. nearest_double a = Finite y \<and> 0 \<le> y) \<or> nearest_double a = Infinity False"
proof (cases "a \<le> 0")
  case True
  then show ?thesis by (simp add: nearest_double_def)
next
  case False
  define q where "q = max (bin_exponent a) (- 1022) - 52"
  define y where "y = scale2 (of_int (round_half_even (scale2 a (- q)))) q"
  have "0 \<le> scale2 a (- q)" using False by (simp add: scale2_nonneg)
  then have "0 \<le> y"
    unfolding y_def by (intro scale2_nonneg) (simp add: round_half_even_nonneg)
  moreover have "nearest_double a = (if 2 ^ 1024 \<le> y then Infinity False else Finite y)"
    using False by (simp add: nearest_double_def q_def y_def Let_def)
  ultimately show ?thesis by auto
qed

lemma dle_zero_iff:
  "dle (Finite 0) d \<longleftrightarrow> (\<exists>y. d = Finite y \<and> 0 \<le> y) \<or> d = NegZero \<or> d = Infinity False"
  by (cases d) (auto simp: dle_def)

lemma dle_zero_nearest_double: "dle (Finite 0) (nearest_double a)"
  using nearest_double_cases [of a] by (auto simp: dle_zero_iff)

lemma dle_zero_round_to_double: "0 \<le> x \<Longrightarrow> dle (Finite 0) (round_to_double x)"
  by (simp add: round_to_double_def dle_zero_nearest_double)

lemma dle_zero_not_nan: "dle (Finite 0) d \<Longrightarrow> \<not> is_nan d"
  by (cases d) (auto simp: dle_def)

text \<open>An amount that is a number and is not \<^verbatim>\<open><= 0\<close> is greater than zero.\<close>

lemma positive_amount:
  "\<not> dle amount (Finite 0) \<Longrightarrow> \<not> is_nan amount \<Longrightarrow>
   (\<exists>a. amount = Finite a \<and> 0 < a) \<or> amount = Infinity False"
  by (cases amount) (auto simp: dle_def)

lemma dadd_keeps_nonneg:
  assumes "dle (Finite 0) b" and "\<not> dle amount (Finite 0)" and "\<not> is_nan amount"
  shows "dle (Finite 0) (dadd b amount)"
proof -
  from assms(1) consider y where "b = Finite y" "0 \<le> y" | "b = NegZero" | "b = Infinity False"
    by (auto simp: dle_zero_iff)
  then show ?thesis
  proof cases
    case 1
    from positive_amount [OF assms(2,3)] show ?thesis
    proof
      assume "\<exists>a. amount = Finite a \<and> 0 < a"
      then obtain a where a: "amount = Finite a" "0 < a" by blast
      with 1 have "dadd b amount = round_to_double (y + a)" by (simp add: dadd_def)
      moreover have "0 \<le> y + a" using 1 a by simp
      ultimately show ?thesis by (simp add: dle_zero_round_to_double)
    next
      assume "amount = Infinity False"
      with 1 show ?thesis by (simp add: dadd_def dle_def)
    qed
  next
    case 2
    from positive_amount [OF assms(2,3)] show ?thesis
    proof
      assume "\<exists>a. amount = Finite a \<and> 0 < a"
      then obtain a where a: "amount = Finite a" "0 < a" by blast
      with 2 have "dadd b amount = round_to_double a" by (simp add: dadd_def)
      with a show ?thesis by (simp add: dle_zero_round_to_double)
    next
      assume "amount = Infinity False"
      with 2 show ?thesis by (simp add: dadd_def dle_def)
    qed
  next
    case 3
    from positive_amount [OF assms(2,3)] show ?thesis
    proof
      assume "\<exists>a. amount = Finite a \<and> 0 < a"
      with 3 show ?thesis by (auto simp: dadd_def dle_def)
    next
      assume "amount = Infinity False"
      with 3 show ?thesis by (simp add: dadd_def dle_def)
    qed
  qed
qed

lemma dsub_keeps_nonneg:
  assumes "\<not> dle amount (Finite 0)" and "\<not> dless b amount" and "is_finite amount"
    and "\<not> is_nan b"
  shows "dle (Finite 0) (dsub b amount)"
proof -
  from assms(3) have "\<not> is_nan amount" by (cases amount) auto
  with positive_amount [OF assms(1)] assms(3) obtain a where a: "amount = Finite a" "0 < a"
    by auto
  from assms(2,4) a consider y where "b = Finite y" "a \<le> y" | "b = Infinity False"
    by (cases b) (auto simp: dless_def)
  then show ?thesis
  proof cases
    case 1
    then have "0 \<le> y + - a" by simp
    then have "dle (Finite 0) (round_to_double (y + - a))" by (rule dle_zero_round_to_double)
    with 1 a show ?thesis by (simp add: dsub_def dadd_def)
  next
    case 2
    with a show ?thesis by (simp add: dsub_def dadd_def dle_def)
  qed
qed

text \<open>Sums and differences of finite \<^verbatim>\<open>double\<close>s other than zeros: the exact result, rounded.\<close>

lemma dadd_Finite: "dadd (Finite x) (Finite y) = round_to_double (x + y)"
  by (simp add: dadd_def)

lemma dsub_Finite: "y \<noteq> 0 \<Longrightarrow> dsub (Finite x) (Finite y) = round_to_double (x - y)"
  by (simp add: dsub_def dadd_def)

lemma dsub_Finite_zero: "dsub (Finite x) (Finite 0) = round_to_double x"
  by (simp add: dsub_def dadd_def)

section \<open>Looking an account up\<close>

lemma findAccount_Some_iff:
  "findAccount accounts n = Some i \<longleftrightarrow>
     i < length accounts \<and> accountNum (accounts ! i) = n \<and>
     (\<forall>k<i. accountNum (accounts ! k) \<noteq> n)"
proof (induction accounts arbitrary: i)
  case Nil
  show ?case by simp
next
  case (Cons acc accounts)
  show ?case
  proof (cases "accountNum acc = n")
    case True
    then show ?thesis by (cases i) auto
  next
    case False
    show ?thesis
    proof (cases i)
      case 0
      with False show ?thesis by simp
    next
      case (Suc i')
      have "(\<forall>k<Suc i'. accountNum ((acc # accounts) ! k) \<noteq> n) \<longleftrightarrow>
            (\<forall>k<i'. accountNum (accounts ! k) \<noteq> n)"
        using False by (auto simp: less_Suc_eq_0_disj)
      with False Suc Cons.IH [of i'] show ?thesis by auto
    qed
  qed
qed

lemma findAccount_None_iff:
  "findAccount accounts n = None \<longleftrightarrow> n \<notin> accountNum ` set accounts"
  by (induction accounts) auto

lemma findAccount_bound: "findAccount accounts n = Some i \<Longrightarrow> i < length accounts"
  by (simp add: findAccount_Some_iff)

lemma findAccount_number: "findAccount accounts n = Some i \<Longrightarrow> accountNum (accounts ! i) = n"
  by (simp add: findAccount_Some_iff)

lemma findAccount_distinct_index:
  "findAccount accounts a = Some i \<Longrightarrow> findAccount accounts b = Some j \<Longrightarrow> a \<noteq> b \<Longrightarrow> i \<noteq> j"
  by (auto dest: findAccount_number)

text \<open>An update that keeps the account number keeps every lookup.\<close>

lemma map_accountNum_update:
  "i < length accounts \<Longrightarrow> accountNum acc' = accountNum (accounts ! i) \<Longrightarrow>
   map accountNum (accounts[i := acc']) = map accountNum accounts"
  by (simp add: map_update list_update_same_conv)

lemma findAccount_cong_numbers:
  "map accountNum accounts' = map accountNum accounts \<Longrightarrow>
   findAccount accounts' n = findAccount accounts n"
proof (induction accounts' arbitrary: accounts)
  case Nil
  then show ?case by simp
next
  case (Cons acc' rest')
  then obtain acc rest where split: "accounts = acc # rest"
    and head: "accountNum acc' = accountNum acc"
    and tail: "map accountNum rest' = map accountNum rest"
    by (cases accounts) auto
  from Cons.IH [OF tail] split head show ?case by simp
qed

section \<open>Withdrawals\<close>

lemma BankAccount_withdraw_cases:
  "BankAccount_withdraw acc amount =
     (if dle amount (Finite 0) then Inl InvalidWithdrawal
      else if dless (balance acc) amount then Inl InsufficientFunds
      else Inr (acc\<lparr>balance := dsub (balance acc) amount\<rparr>))"
  by (simp add: BankAccount_withdraw_def)

lemma withdraw_found:
  "findAccount accounts n = Some i \<Longrightarrow> verifyPIN hashPIN (accounts ! i) pin \<Longrightarrow>
   withdraw hashPIN accounts n amount pin =
     (case BankAccount_withdraw (accounts ! i) amount of
        Inl e \<Rightarrow> (Threw e, accounts)
      | Inr acc' \<Rightarrow> (Done, accounts[i := acc']))"
  by (simp add: withdraw_def authenticate_def)

text \<open>What the comparisons of the claim say about the two guards.\<close>

lemma dless_not_dle_zero: "dle (Finite 0) b \<Longrightarrow> dless b amount \<Longrightarrow> \<not> dle amount (Finite 0)"
  by (cases b; cases amount) (auto simp: dle_def dless_def)

lemma dless_zero_not_dle: "dless (Finite 0) amount \<Longrightarrow> \<not> dle amount (Finite 0)"
  by (cases amount) (auto simp: dle_def dless_def)

lemma dle_not_dless: "dle amount b \<Longrightarrow> \<not> dless b amount"
  by (cases b; cases amount) (auto simp: dle_def dless_def)

text \<open>
  Claim C4, as the code has it. For an account that is found and whose PIN verifies,
  with current balance \<open>b\<close>. When \<open>b >= 0\<close>, a withdrawal of an amount greater than \<open>b\<close>
  throws "Insufficient balance" and leaves the ledger as it was (so does a withdrawal
  of a positive amount greater than any \<open>b\<close>). A withdrawal of an amount with
  \<open>0 < amount <= b\<close> succeeds and stores the \<^verbatim>\<open>double\<close> \<^verbatim>\<open>b - amount\<close>, every other field and
  every other account unchanged; for a finite balance \<open>x\<close> and a finite amount \<open>a\<close> that
  is the \<^verbatim>\<open>double\<close> nearest to \<open>x - a\<close>, and it is \<open>x - a\<close> when \<open>x - a\<close> is a \<^verbatim>\<open>double\<close>. An
  amount with \<open>amount <= 0\<close> throws "Withdrawal must be positive".
\<close>

theorem withdraw_insufficient_or_exact:
  assumes "findAccount accounts n = Some i"
    and "verifyPIN hashPIN (accounts ! i) pin"
  shows "(dle (Finite 0) (balance (accounts ! i)) \<and> dless (balance (accounts ! i)) amount \<longrightarrow>
            BankAccount_withdraw (accounts ! i) amount = Inl InsufficientFunds \<and>
            withdraw hashPIN accounts n amount pin = (Threw InsufficientFunds, accounts))
       \<and> (dless (Finite 0) amount \<and> dless (balance (accounts ! i)) amount \<longrightarrow>
            withdraw hashPIN accounts n amount pin = (Threw InsufficientFunds, accounts))
       \<and> (dless (Finite 0) amount \<and> dle amount (balance (accounts ! i)) \<longrightarrow>
            BankAccount_withdraw (accounts ! i) amount =
              Inr ((accounts ! i)\<lparr>balance := dsub (balance (accounts ! i)) amount\<rparr>) \<and>
            withdraw hashPIN accounts n amount pin =
              (Done, accounts[i := (accounts ! i)\<lparr>balance := dsub (balance (accounts ! i)) amount\<rparr>]))
       \<and> (\<forall>x a. balance (accounts ! i) = Finite x \<and> amount = Finite a \<and> 0 < a \<and> a \<le> x \<longrightarrow>
            withdraw hashPIN accounts n amount pin =
              (Done, accounts[i := (accounts ! i)\<lparr>balance := round_to_double (x - a)\<rparr>]) \<and>
            (is_double (Finite (x - a)) \<longrightarrow>
               withdraw hashPIN accounts n amount pin =
                 (Done, accounts[i := (accounts ! i)\<lparr>balance := Finite (x - a)\<rparr>])))
       \<and> (dle amount (Finite 0) \<longrightarrow>
            withdraw hashPIN accounts n amount pin = (Threw InvalidWithdrawal, accounts))"
proof -
  note run = withdraw_found [OF assms] BankAccount_withdraw_cases
  have short: "BankAccount_withdraw (accounts ! i) amount = Inl InsufficientFunds \<and>
      withdraw hashPIN accounts n amount pin = (Threw InsufficientFunds, accounts)"
    if "dle (Finite 0) (balance (accounts ! i))" "dless (balance (accounts ! i)) amount"
    using that dless_not_dle_zero [OF that] by (simp add: run)
  have short': "withdraw hashPIN accounts n amount pin = (Threw InsufficientFunds, accounts)"
    if "dless (Finite 0) amount" "dless (balance (accounts ! i)) amount"
    using that dless_zero_not_dle [OF that(1)] by (simp add: run)
  have enough: "BankAccount_withdraw (accounts ! i) amount =
              Inr ((accounts ! i)\<lparr>balance := dsub (balance (accounts ! i)) amount\<rparr>) \<and>
            withdraw hashPIN accounts n amount pin =
              (Done, accounts[i := (accounts ! i)\<lparr>balance := dsub (balance (accounts ! i)) amount\<rparr>])"
    if "dless (Finite 0) amount" "dle amount (balance (accounts ! i))"
    using dless_zero_not_dle [OF that(1)] dle_not_dless [OF that(2)] by (simp add: run)
  have finite: "withdraw hashPIN accounts n amount pin =
              (Done, accounts[i := (accounts ! i)\<lparr>balance := round_to_double (x - a)\<rparr>]) \<and>
            (is_double (Finite (x - a)) \<longrightarrow>
               withdraw hashPIN accounts n amount pin =
                 (Done, accounts[i := (accounts ! i)\<lparr>balance := Finite (x - a)\<rparr>]))"
    if "balance (accounts ! i) = Finite x" "amount = Finite a" "0 < a" "a \<le> x" for x a
    using that by (simp add: run dle_def dless_def dsub_Finite is_double_def)
  have nonpositive: "withdraw hashPIN accounts n amount pin = (Threw InvalidWithdrawal, accounts)"
    if "dle amount (Finite 0)"
    using that by (simp add: run)
  from short short' enough finite nonpositive show ?thesis by blast
qed

text \<open>
  The example scenario's last step: 1000 from an account holding 80 is refused, the
  80 stay; and 30 from Alice's 100 leave 70.
\<close>

theorem withdraw_insufficient_or_exact_witness:
  "findAccount [alice, bob\<lparr>balance := Finite 80\<rparr>] 1002 = Some 1
   \<and> verifyPIN demo_hash ([alice, bob\<lparr>balance := Finite 80\<rparr>] ! 1) ''5678''
   \<and> withdraw demo_hash [alice, bob\<lparr>balance := Finite 80\<rparr>] 1002 (Finite 1000) ''5678''
       = (Threw InsufficientFunds, [alice, bob\<lparr>balance := Finite 80\<rparr>])
   \<and> findAccount [alice, bob] 1001 = Some 0
   \<and> verifyPIN demo_hash ([alice, bob] ! 0) ''1234''
   \<and> is_double (Finite (100 - 30))
   \<and> withdraw demo_hash [alice, bob] 1001 (Finite 30) ''1234''
       = (Done, [alice\<lparr>balance := Finite 70\<rparr>, bob])"
proof -
  have f1: "findAccount [alice, bob\<lparr>balance := Finite 80\<rparr>] 1002 = Some 1"
    by (simp add: alice_fields bob_fields)
  have v1: "verifyPIN demo_hash ([alice, bob\<lparr>balance := Finite 80\<rparr>] ! 1) ''5678''"
    by (simp add: verifyPIN_def bob_fields demo_hash_5678)
  have f2: "findAccount [alice, bob] 1001 = Some 0"
    by (simp add: alice_fields)
  have v2: "verifyPIN demo_hash ([alice, bob] ! 0) ''1234''"
    by (simp add: verifyPIN_def alice_fields demo_hash_1234)
  have exact: "is_double (Finite (100 - 30))"
    by (simp add: is_double_def double_simps)
  from withdraw_insufficient_or_exact [OF f1 v1, of "Finite 1000"]
  have "withdraw demo_hash [alice, bob\<lparr>balance := Finite 80\<rparr>] 1002 (Finite 1000) ''5678''
          = (Threw InsufficientFunds, [alice, bob\<lparr>balance := Finite 80\<rparr>])"
    by (simp add: bob_fields dle_def dless_def)
  moreover from withdraw_insufficient_or_exact [OF f2 v2, of "Finite 30"] exact
  have "withdraw demo_hash [alice, bob] 1001 (Finite 30) ''1234''
          = (Done, [alice\<lparr>balance := Finite 70\<rparr>, bob])"
    by (simp add: alice_fields dle_def dless_def dsub_Finite is_double_def)
  ultimately show ?thesis using f1 v1 f2 v2 exact by simp
qed

text \<open>
  Where the claim as written fails: an account created with the balance \<open>10 ^ 16\<close>, and
  a withdrawal of 1 with the right PIN. Both are \<^verbatim>\<open>double\<close>s, and \<open>0 < 1 <= 10 ^ 16\<close>. The
  call succeeds and leaves \<open>10 ^ 16\<close>, not \<open>10 ^ 16 - 1\<close>: the \<^verbatim>\<open>double\<close>s next to \<open>10 ^ 16\<close>
  are 2 apart, and the difference is rounded to the even one.
\<close>

theorem withdraw_rounds_counterexample:
  "is_double (Finite (10 ^ 16)) \<and> is_double (Finite 1)
   \<and> addAccount demo_hash [] ''x'' 1 (Finite (10 ^ 16)) ''1234''
       = (Done, [\<lparr>name = ''x'', accountNum = 1, balance = Finite (10 ^ 16), pinHash = 1234\<rparr>])
   \<and> dless (Finite 0) (Finite 1) \<and> dle (Finite 1) (Finite (10 ^ 16))
   \<and> withdraw demo_hash
        [\<lparr>name = ''x'', accountNum = 1, balance = Finite (10 ^ 16), pinHash = 1234\<rparr>]
        1 (Finite 1) ''1234''
       = (Done, [\<lparr>name = ''x'', accountNum = 1, balance = Finite (10 ^ 16), pinHash = 1234\<rparr>])
   \<and> Finite (10 ^ 16) \<noteq> Finite (10 ^ 16 - 1)"
proof -
  have doubles: "is_double (Finite (10 ^ 16)) \<and> is_double (Finite 1)"
    by (simp add: is_double_def double_simps)
  have rounded: "dsub (Finite (10 ^ 16)) (Finite 1) = Finite (10 ^ 16)"
    by (simp add: double_simps)
  have added: "addAccount demo_hash [] ''x'' 1 (Finite (10 ^ 16)) ''1234''
       = (Done, [\<lparr>name = ''x'', accountNum = 1, balance = Finite (10 ^ 16), pinHash = 1234\<rparr>])"
    by (simp add: addAccount_def BankAccount_new_def demo_hash_1234)
  have guards: "dless (Finite 0) (Finite 1) \<and> dle (Finite 1) (Finite (10 ^ 16))"
    by (simp add: dle_def dless_def)
  have run: "withdraw demo_hash
        [\<lparr>name = ''x'', accountNum = 1, balance = Finite (10 ^ 16), pinHash = 1234\<rparr>]
        1 (Finite 1) ''1234''
       = (Done, [\<lparr>name = ''x'', accountNum = 1, balance = Finite (10 ^ 16), pinHash = 1234\<rparr>])"
    using rounded
    by (simp add: withdraw_def authenticate_def verifyPIN_def demo_hash_1234
          BankAccount_withdraw_def dle_def dless_def)
  from doubles added guards run show ?thesis by simp
qed

section \<open>Transfers\<close>

lemma BankAccount_deposit_cases:
  "BankAccount_deposit acc amount =
     (if dle amount (Finite 0) then Inl InvalidDeposit
      else Inr (acc\<lparr>balance := dadd (balance acc) amount\<rparr>))"
  by (simp add: BankAccount_deposit_def)

lemma transfer_found:
  "findAccount accounts a = Some i \<Longrightarrow> findAccount accounts b = Some j \<Longrightarrow> a \<noteq> b \<Longrightarrow>
   verifyPIN hashPIN (accounts ! i) pin \<Longrightarrow>
   transfer hashPIN accounts a b amount pin =
     (case BankAccount_withdraw (accounts ! i) amount of
        Inl e \<Rightarrow> (Threw e, accounts)
      | Inr acc' \<Rightarrow>
          (case BankAccount_deposit (accounts[i := acc'] ! j) amount of
             Inl e \<Rightarrow> (Threw e, accounts[i := acc'])
           | Inr acc'' \<Rightarrow> (Done, accounts[i := acc', j := acc''])))"
  by (simp add: transfer_def authenticate_def)

lemma transfer_succeeds:
  assumes "findAccount accounts a = Some i"
    and "findAccount accounts b = Some j"
    and "a \<noteq> b"
    and "verifyPIN hashPIN (accounts ! i) pin"
    and "\<not> dle amount (Finite 0)"
    and "\<not> dless (balance (accounts ! i)) amount"
  shows "transfer hashPIN accounts a b amount pin =
           (Done, accounts[i := (accounts ! i)\<lparr>balance := dsub (balance (accounts ! i)) amount\<rparr>,
                           j := (accounts ! j)\<lparr>balance := dadd (balance (accounts ! j)) amount\<rparr>])"
proof -
  have "i \<noteq> j"
    using assms(1-3) by (rule findAccount_distinct_index)
  then have other: "accounts[i := acc'] ! j = accounts ! j" for acc'
    by simp
  show ?thesis
    using assms(5,6)
    by (simp add: transfer_found [OF assms(1-4)] BankAccount_withdraw_cases
          BankAccount_deposit_cases other)
qed

text \<open>
  Claim C5, as the code has it. For two different numbers \<open>a\<close> and \<open>b\<close> that are both
  found and the right PIN for \<open>a\<close>. With \<open>0 < amount <= balance(a)\<close> the transfer
  succeeds; the ledger afterwards is the ledger before with the \<^verbatim>\<open>double\<close>
  \<^verbatim>\<open>balance(a) - amount\<close> in \<open>a\<close>'s account and the \<^verbatim>\<open>double\<close> \<^verbatim>\<open>balance(b) + amount\<close> in \<open>b\<close>'s,
  and both numbers are still found at the same places. For finite balances \<open>x\<close>, \<open>y\<close>
  and a finite amount \<open>m\<close> these are the \<^verbatim>\<open>double\<close>s nearest to \<open>x - m\<close> and to \<open>y + m\<close>;
  when \<open>x - m\<close> and \<open>y + m\<close> are \<^verbatim>\<open>double\<close>s, they are the new balances, and they add up to
  \<open>x + y\<close>. With \<open>amount <= 0\<close> the transfer throws "Withdrawal must be positive" and
  leaves the ledger as it was.
\<close>

theorem transfer_moves_amount:
  assumes "findAccount accounts a = Some i"
    and "findAccount accounts b = Some j"
    and "a \<noteq> b"
    and "verifyPIN hashPIN (accounts ! i) pin"
  shows "(dless (Finite 0) amount \<and> dle amount (balance (accounts ! i)) \<longrightarrow>
           (\<exists>accounts'.
              accounts' = accounts[i := (accounts ! i)\<lparr>balance := dsub (balance (accounts ! i)) amount\<rparr>,
                                   j := (accounts ! j)\<lparr>balance := dadd (balance (accounts ! j)) amount\<rparr>]
            \<and> transfer hashPIN accounts a b amount pin = (Done, accounts')
            \<and> findAccount accounts' a = Some i
            \<and> findAccount accounts' b = Some j
            \<and> balance (accounts' ! i) = dsub (balance (accounts ! i)) amount
            \<and> balance (accounts' ! j) = dadd (balance (accounts ! j)) amount))
       \<and> (\<forall>x y m. balance (accounts ! i) = Finite x \<and> balance (accounts ! j) = Finite y
              \<and> amount = Finite m \<and> 0 < m \<and> m \<le> x \<longrightarrow>
            transfer hashPIN accounts a b amount pin =
              (Done, accounts[i := (accounts ! i)\<lparr>balance := round_to_double (x - m)\<rparr>,
                              j := (accounts ! j)\<lparr>balance := round_to_double (y + m)\<rparr>])
            \<and> (is_double (Finite (x - m)) \<and> is_double (Finite (y + m)) \<longrightarrow>
                 transfer hashPIN accounts a b amount pin =
                   (Done, accounts[i := (accounts ! i)\<lparr>balance := Finite (x - m)\<rparr>,
                                   j := (accounts ! j)\<lparr>balance := Finite (y + m)\<rparr>])
                 \<and> (x - m) + (y + m) = x + y))
       \<and> (dle amount (Finite 0) \<longrightarrow>
            transfer hashPIN accounts a b amount pin = (Threw InvalidWithdrawal, accounts))"
proof -
  have moved: "\<exists>accounts'.
              accounts' = accounts[i := (accounts ! i)\<lparr>balance := dsub (balance (accounts ! i)) amount\<rparr>,
                                   j := (accounts ! j)\<lparr>balance := dadd (balance (accounts ! j)) amount\<rparr>]
            \<and> transfer hashPIN accounts a b amount pin = (Done, accounts')
            \<and> findAccount accounts' a = Some i
            \<and> findAccount accounts' b = Some j
            \<and> balance (accounts' ! i) = dsub (balance (accounts ! i)) amount
            \<and> balance (accounts' ! j) = dadd (balance (accounts ! j)) amount"
    if positive: "dless (Finite 0) amount" and funds: "dle amount (balance (accounts ! i))"
  proof -
    define acc' where "acc' = (accounts ! i)\<lparr>balance := dsub (balance (accounts ! i)) amount\<rparr>"
    define acc'' where "acc'' = (accounts ! j)\<lparr>balance := dadd (balance (accounts ! j)) amount\<rparr>"
    define accounts' where "accounts' = accounts[i := acc', j := acc'']"
    have i: "i < length accounts" and j: "j < length accounts"
      using assms(1,2) by (simp_all add: findAccount_bound)
    have ij: "i \<noteq> j"
      using assms(1-3) by (rule findAccount_distinct_index)
    have run: "transfer hashPIN accounts a b amount pin = (Done, accounts')"
      using transfer_succeeds [OF assms dless_zero_not_dle [OF positive] dle_not_dless [OF funds]]
      by (simp add: accounts'_def acc'_def acc''_def)
    have "map accountNum (accounts[i := acc']) = map accountNum accounts"
      using i by (simp add: map_accountNum_update acc'_def)
    moreover have "map accountNum accounts' = map accountNum (accounts[i := acc'])"
      unfolding accounts'_def using j ij
      by (intro map_accountNum_update) (simp_all add: acc''_def)
    ultimately have numbers: "map accountNum accounts' = map accountNum accounts"
      by simp
    have fa: "findAccount accounts' a = Some i" and fb: "findAccount accounts' b = Some j"
      using assms(1,2) findAccount_cong_numbers [OF numbers] by simp_all
    have bi: "balance (accounts' ! i) = dsub (balance (accounts ! i)) amount"
      using i ij by (simp add: accounts'_def acc'_def)
    have bj: "balance (accounts' ! j) = dadd (balance (accounts ! j)) amount"
      using j by (simp add: accounts'_def acc''_def)
    have "accounts' = accounts[i := (accounts ! i)\<lparr>balance := dsub (balance (accounts ! i)) amount\<rparr>,
                               j := (accounts ! j)\<lparr>balance := dadd (balance (accounts ! j)) amount\<rparr>]"
      by (simp add: accounts'_def acc'_def acc''_def)
    with run fa fb bi bj show ?thesis by simp
  qed
  have finite: "transfer hashPIN accounts a b amount pin =
              (Done, accounts[i := (accounts ! i)\<lparr>balance := round_to_double (x - m)\<rparr>,
                              j := (accounts ! j)\<lparr>balance := round_to_double (y + m)\<rparr>])
            \<and> (is_double (Finite (x - m)) \<and> is_double (Finite (y + m)) \<longrightarrow>
                 transfer hashPIN accounts a b amount pin =
                   (Done, accounts[i := (accounts ! i)\<lparr>balance := Finite (x - m)\<rparr>,
                                   j := (accounts ! j)\<lparr>balance := Finite (y + m)\<rparr>])
                 \<and> (x - m) + (y + m) = x + y)"
    if "balance (accounts ! i) = Finite x" "balance (accounts ! j) = Finite y"
      "amount = Finite m" "0 < m" "m \<le> x" for x y m
  proof -
    have "\<not> dle amount (Finite 0)" "\<not> dless (balance (accounts ! i)) amount"
      using that by (simp_all add: dle_def dless_def)
    from transfer_succeeds [OF assms this] that show ?thesis
      by (simp add: dsub_Finite dadd_Finite is_double_def)
  qed
  have nonpositive: "transfer hashPIN accounts a b amount pin = (Threw InvalidWithdrawal, accounts)"
    if "dle amount (Finite 0)"
    using that by (simp add: transfer_found [OF assms] BankAccount_withdraw_cases)
  from moved finite nonpositive show ?thesis by blast
qed

text \<open>
  The example scenario: Alice (1001) holds 100 and Bob (1002) holds 50; 30 from Alice
  to Bob with Alice's PIN leaves 70 and 80. A transfer of \<open>-5\<close> is refused.
\<close>

theorem transfer_moves_amount_witness:
  "findAccount [alice, bob] 1001 = Some 0 \<and> findAccount [alice, bob] 1002 = Some 1
   \<and> verifyPIN demo_hash ([alice, bob] ! 0) ''1234''
   \<and> is_double (Finite (100 - 30)) \<and> is_double (Finite (50 + 30))
   \<and> transfer demo_hash [alice, bob] 1001 1002 (Finite 30) ''1234''
       = (Done, [alice\<lparr>balance := Finite 70\<rparr>, bob\<lparr>balance := Finite 80\<rparr>])
   \<and> transfer demo_hash [alice, bob] 1001 1002 (Finite (- 5)) ''1234''
       = (Threw InvalidWithdrawal, [alice, bob])"
proof -
  have fa: "findAccount [alice, bob] 1001 = Some 0"
    by (simp add: alice_fields)
  have fb: "findAccount [alice, bob] 1002 = Some 1"
    by (simp add: alice_fields bob_fields)
  have ne: "(1001::int) \<noteq> 1002" by simp
  have pin: "verifyPIN demo_hash ([alice, bob] ! 0) ''1234''"
    by (simp add: verifyPIN_def alice_fields demo_hash_1234)
  have exact: "is_double (Finite (100 - 30)) \<and> is_double (Finite (50 + 30))"
    by (simp add: is_double_def double_simps)
  from transfer_moves_amount [OF fa fb ne pin, of "Finite 30"] exact
  have moved: "transfer demo_hash [alice, bob] 1001 1002 (Finite 30) ''1234''
          = (Done, [alice\<lparr>balance := Finite 70\<rparr>, bob\<lparr>balance := Finite 80\<rparr>])"
    by (simp add: alice_fields bob_fields dle_def dless_def dsub_Finite dadd_Finite is_double_def)
  from transfer_moves_amount [OF fa fb ne pin, of "Finite (- 5)"]
  have refused: "transfer demo_hash [alice, bob] 1001 1002 (Finite (- 5)) ''1234''
          = (Threw InvalidWithdrawal, [alice, bob])"
    by (simp add: dle_def)
  from fa fb pin exact moved refused show ?thesis by simp
qed

text \<open>
  Where the claim as written fails: an account holding 1, an account holding \<open>10 ^ 16\<close>,
  and a transfer of 1 from the first to the second with the right PIN; all three are
  \<^verbatim>\<open>double\<close>s and \<open>0 < 1 <= 1\<close>. The transfer succeeds. The first account is left with 0;
  the second is left with \<open>10 ^ 16\<close>, not with \<open>10 ^ 16 + 1\<close>; the balances added up to
  \<open>10 ^ 16 + 1\<close> before and add up to \<open>10 ^ 16\<close> afterwards.
\<close>

theorem transfer_rounds_counterexample:
  "is_double (Finite 1) \<and> is_double (Finite (10 ^ 16))
   \<and> findAccount [small_account,
                   large_account] 1 = Some 0
   \<and> findAccount [small_account,
                   large_account] 2 = Some 1
   \<and> verifyPIN demo_hash small_account ''1234''
   \<and> dless (Finite 0) (Finite 1) \<and> dle (Finite 1) (Finite 1)
   \<and> transfer demo_hash [small_account,
                          large_account]
        1 2 (Finite 1) ''1234''
       = (Done, [small_account\<lparr>balance := Finite 0\<rparr>,
                 large_account])
   \<and> Finite (10 ^ 16) \<noteq> Finite (10 ^ 16 + 1)
   \<and> (0::real) + 10 ^ 16 \<noteq> 1 + 10 ^ 16"
proof -
  have doubles: "is_double (Finite 1) \<and> is_double (Finite (10 ^ 16))"
    by (simp add: is_double_def double_simps)
  have taken: "dsub (Finite 1) (Finite 1) = Finite 0"
    by (simp add: double_simps)
  have given: "dadd (Finite (10 ^ 16)) (Finite 1) = Finite (10 ^ 16)"
    by (simp add: double_simps)
  have run: "transfer demo_hash [small_account,
                          large_account]
        1 2 (Finite 1) ''1234''
       = (Done, [small_account\<lparr>balance := Finite 0\<rparr>,
                 large_account])"
    using taken given
    by (simp add: transfer_def authenticate_def verifyPIN_def demo_hash_1234 small_account_def
          large_account_def BankAccount_withdraw_def BankAccount_deposit_def dle_def dless_def)
  have rest: "findAccount [small_account,
                   large_account] 1 = Some 0
   \<and> findAccount [small_account,
                   large_account] 2 = Some 1
   \<and> verifyPIN demo_hash small_account ''1234''
   \<and> dless (Finite 0) (Finite 1) \<and> dle (Finite 1) (Finite 1)"
    by (simp add: verifyPIN_def demo_hash_1234 small_account_def large_account_def dle_def dless_def)
  from doubles rest run show ?thesis by simp
qed

text \<open>
  Claim C8. \<^verbatim>\<open>transfer\<close> looks both numbers up before it compares them. For a number
  that is in the ledger, a transfer from the number to itself throws "Cannot transfer
  to same account", whatever the amount, the PIN and the funds of its account, and the
  ledger is unchanged. (For a number that is not in the ledger there is no account to
  speak of: the call throws "One or both accounts not found", and the ledger is
  unchanged as well.)
\<close>

theorem transfer_same_account:
  "(a \<in> accountNum ` set accounts \<longrightarrow>
      transfer hashPIN accounts a a amount pin = (Threw SameAccountTransfer, accounts))
   \<and> (a \<notin> accountNum ` set accounts \<longrightarrow>
      transfer hashPIN accounts a a amount pin = (Threw AccountNotFound, accounts))"
proof (cases "findAccount accounts a")
  case None
  then show ?thesis
    by (simp add: transfer_def flip: findAccount_None_iff)
next
  case (Some i)
  then have "a \<in> accountNum ` set accounts"
    using findAccount_None_iff [of accounts a] by simp
  with Some show ?thesis by (simp add: transfer_def)
qed

text \<open>
  Alice's number to itself: refused for an amount far above her funds with a wrong PIN,
  for a NaN, and for an amount that is not positive.
\<close>

theorem transfer_same_account_witness:
  "1001 \<in> accountNum ` set [alice, bob]
   \<and> transfer demo_hash [alice, bob] 1001 1001 (Finite 1000000) ''0000''
       = (Threw SameAccountTransfer, [alice, bob])
   \<and> transfer demo_hash [alice, bob] 1001 1001 (NaN False) ''1234''
       = (Threw SameAccountTransfer, [alice, bob])
   \<and> transfer demo_hash [alice, bob] 1001 1001 (Finite (- 5)) ''1234''
       = (Threw SameAccountTransfer, [alice, bob])
   \<and> 7 \<notin> accountNum ` set [alice, bob]
   \<and> transfer demo_hash [alice, bob] 7 7 (Finite 10) ''1234'' = (Threw AccountNotFound, [alice, bob])"
proof -
  have present: "1001 \<in> accountNum ` set [alice, bob]"
    by (simp add: alice_fields)
  have absent: "7 \<notin> accountNum ` set [alice, bob]"
    by (simp add: alice_fields bob_fields)
  note same = transfer_same_account [where accounts = "[alice, bob]" and hashPIN = demo_hash]
  have t1: "transfer demo_hash [alice, bob] 1001 1001 (Finite 1000000) ''0000''
          = (Threw SameAccountTransfer, [alice, bob])"
    using same [of 1001 "Finite 1000000" "''0000''"] present by blast
  have t2: "transfer demo_hash [alice, bob] 1001 1001 (NaN False) ''1234''
          = (Threw SameAccountTransfer, [alice, bob])"
    using same [of 1001 "NaN False" "''1234''"] present by blast
  have t3: "transfer demo_hash [alice, bob] 1001 1001 (Finite (- 5)) ''1234''
          = (Threw SameAccountTransfer, [alice, bob])"
    using same [of 1001 "Finite (- 5)" "''1234''"] present by blast
  have t4: "transfer demo_hash [alice, bob] 7 7 (Finite 10) ''1234''
          = (Threw AccountNotFound, [alice, bob])"
    using same [of 7 "Finite 10" "''1234''"] absent by blast
  from present absent t1 t2 t3 t4 show ?thesis by simp
qed

section \<open>Which account an operation acts on\<close>

lemma deposit_found:
  "findAccount accounts n = Some i \<Longrightarrow>
   deposit hashPIN accounts n amount pin =
     (if \<not> verifyPIN hashPIN (accounts ! i) pin then (Authentication_failed, accounts)
      else if dle amount (Finite 0) then (Threw InvalidDeposit, accounts)
      else (Done, accounts[i := (accounts ! i)\<lparr>balance := dadd (balance (accounts ! i)) amount\<rparr>]))"
  by (simp add: deposit_def authenticate_def BankAccount_deposit_def)

lemma withdraw_found_cases:
  "findAccount accounts n = Some i \<Longrightarrow>
   withdraw hashPIN accounts n amount pin =
     (if \<not> verifyPIN hashPIN (accounts ! i) pin then (Authentication_failed, accounts)
      else if dle amount (Finite 0) then (Threw InvalidWithdrawal, accounts)
      else if dless (balance (accounts ! i)) amount then (Threw InsufficientFunds, accounts)
      else (Done, accounts[i := (accounts ! i)\<lparr>balance := dsub (balance (accounts ! i)) amount\<rparr>]))"
  by (simp add: withdraw_def authenticate_def BankAccount_withdraw_def)

lemma updateName_found:
  "findAccount accounts n = Some i \<Longrightarrow>
   updateName hashPIN accounts n newName pin =
     (if \<not> verifyPIN hashPIN (accounts ! i) pin then (Authentication_failed, accounts)
      else if newName = [] then (Threw EmptyName, accounts)
      else (Done, accounts[i := (accounts ! i)\<lparr>name := newName\<rparr>]))"
  by (simp add: updateName_def authenticate_def BankAccount_updateName_def)

lemma closeAccount_found:
  "findAccount accounts n = Some i \<Longrightarrow>
   closeAccount hashPIN accounts n pin =
     (if \<not> verifyPIN hashPIN (accounts ! i) pin then (Authentication_failed, accounts)
      else (Done, take i accounts @ drop (Suc i) accounts))"
  by (simp add: closeAccount_def authenticate_def)

lemma transfer_found_cases:
  assumes "findAccount accounts n = Some i"
    and "findAccount accounts m = Some j"
    and "n \<noteq> m"
  shows "transfer hashPIN accounts n m amount pin =
     (if \<not> verifyPIN hashPIN (accounts ! i) pin then (Authentication_failed, accounts)
      else if dle amount (Finite 0) then (Threw InvalidWithdrawal, accounts)
      else if dless (balance (accounts ! i)) amount then (Threw InsufficientFunds, accounts)
      else (Done, accounts[i := (accounts ! i)\<lparr>balance := dsub (balance (accounts ! i)) amount\<rparr>,
                           j := (accounts ! j)\<lparr>balance := dadd (balance (accounts ! j)) amount\<rparr>]))"
proof -
  have "i \<noteq> j" using assms by (rule findAccount_distinct_index)
  then have other: "accounts[i := acc'] ! j = accounts ! j" for acc'
    by simp
  show ?thesis
    using assms
    by (simp add: transfer_def authenticate_def BankAccount_withdraw_def
          BankAccount_deposit_def other)
qed

lemma findAccount_present:
  "n \<in> accountNum ` set accounts \<Longrightarrow>
   \<exists>i. findAccount accounts n = Some i \<and> i < length accounts \<and> accountNum (accounts ! i) = n
        \<and> (\<forall>k<i. accountNum (accounts ! k) \<noteq> n)"
proof -
  assume "n \<in> accountNum ` set accounts"
  then have "findAccount accounts n \<noteq> None" by (simp add: findAccount_None_iff)
  then obtain i where "findAccount accounts n = Some i" by blast
  then show ?thesis using findAccount_Some_iff [of accounts n i] by blast
qed

text \<open>
  Claim C10. For a number \<open>n\<close> that is in the ledger, once or more than once,
  \<^verbatim>\<open>findAccount\<close> returns a handle, and it is the first position \<open>i\<close> of the vector that
  holds the number. \<^verbatim>\<open>closeAccount\<close> with the right PIN removes position \<open>i\<close> and no
  other. \<^verbatim>\<open>deposit\<close>, \<^verbatim>\<open>withdraw\<close> and \<^verbatim>\<open>updateName\<close> check the PIN of the account at \<open>i\<close>
  and, when they succeed, change the account at \<open>i\<close> and no other; \<^verbatim>\<open>transfer\<close> to
  another number \<open>m\<close> of the ledger checks the PIN and the funds of the account at \<open>i\<close>
  and changes that account and the account at the first position \<open>j\<close> that holds \<open>m\<close>,
  and no other. A call that does not succeed leaves the vector as it was.
\<close>

theorem first_match_is_acted_on:
  "n \<in> accountNum ` set accounts \<longrightarrow>
     (\<exists>i. findAccount accounts n = Some i
       \<and> i < length accounts \<and> accountNum (accounts ! i) = n
       \<and> (\<forall>k<i. accountNum (accounts ! k) \<noteq> n)
       \<and> closeAccount hashPIN accounts n pin =
            (if \<not> verifyPIN hashPIN (accounts ! i) pin then (Authentication_failed, accounts)
             else (Done, take i accounts @ drop (Suc i) accounts))
       \<and> deposit hashPIN accounts n amount pin =
            (if \<not> verifyPIN hashPIN (accounts ! i) pin then (Authentication_failed, accounts)
             else if dle amount (Finite 0) then (Threw InvalidDeposit, accounts)
             else (Done, accounts[i := (accounts ! i)\<lparr>balance := dadd (balance (accounts ! i)) amount\<rparr>]))
       \<and> withdraw hashPIN accounts n amount pin =
            (if \<not> verifyPIN hashPIN (accounts ! i) pin then (Authentication_failed, accounts)
             else if dle amount (Finite 0) then (Threw InvalidWithdrawal, accounts)
             else if dless (balance (accounts ! i)) amount then (Threw InsufficientFunds, accounts)
             else (Done, accounts[i := (accounts ! i)\<lparr>balance := dsub (balance (accounts ! i)) amount\<rparr>]))
       \<and> updateName hashPIN accounts n newName pin =
            (if \<not> verifyPIN hashPIN (accounts ! i) pin then (Authentication_failed, accounts)
             else if newName = [] then (Threw EmptyName, accounts)
             else (Done, accounts[i := (accounts ! i)\<lparr>name := newName\<rparr>]))
       \<and> (\<forall>m. m \<in> accountNum ` set accounts \<and> n \<noteq> m \<longrightarrow>
             (\<exists>j. findAccount accounts m = Some j
               \<and> j < length accounts \<and> accountNum (accounts ! j) = m
               \<and> (\<forall>k<j. accountNum (accounts ! k) \<noteq> m)
               \<and> transfer hashPIN accounts n m amount pin =
                  (if \<not> verifyPIN hashPIN (accounts ! i) pin then (Authentication_failed, accounts)
                   else if dle amount (Finite 0) then (Threw InvalidWithdrawal, accounts)
                   else if dless (balance (accounts ! i)) amount
                   then (Threw InsufficientFunds, accounts)
                   else (Done, accounts[i := (accounts ! i)\<lparr>balance := dsub (balance (accounts ! i)) amount\<rparr>,
                                        j := (accounts ! j)\<lparr>balance := dadd (balance (accounts ! j)) amount\<rparr>])))))"
proof
  assume "n \<in> accountNum ` set accounts"
  from findAccount_present [OF this] obtain i where
    found: "findAccount accounts n = Some i"
    and first: "i < length accounts" "accountNum (accounts ! i) = n"
      "\<forall>k<i. accountNum (accounts ! k) \<noteq> n"
    by blast
  have move: "\<exists>j. findAccount accounts m = Some j
               \<and> j < length accounts \<and> accountNum (accounts ! j) = m
               \<and> (\<forall>k<j. accountNum (accounts ! k) \<noteq> m)
               \<and> transfer hashPIN accounts n m amount pin =
                  (if \<not> verifyPIN hashPIN (accounts ! i) pin then (Authentication_failed, accounts)
                   else if dle amount (Finite 0) then (Threw InvalidWithdrawal, accounts)
                   else if dless (balance (accounts ! i)) amount
                   then (Threw InsufficientFunds, accounts)
                   else (Done, accounts[i := (accounts ! i)\<lparr>balance := dsub (balance (accounts ! i)) amount\<rparr>,
                                        j := (accounts ! j)\<lparr>balance := dadd (balance (accounts ! j)) amount\<rparr>]))"
    if "m \<in> accountNum ` set accounts" "n \<noteq> m" for m
  proof -
    from findAccount_present [OF that(1)] obtain j where
      target: "findAccount accounts m = Some j"
      and "j < length accounts" "accountNum (accounts ! j) = m"
        "\<forall>k<j. accountNum (accounts ! k) \<noteq> m"
      by blast
    with transfer_found_cases [OF found target that(2), of hashPIN amount pin] show ?thesis
      by blast
  qed
  from found first move closeAccount_found [OF found, of hashPIN pin]
    deposit_found [OF found, of hashPIN amount pin]
    withdraw_found_cases [OF found, of hashPIN amount pin]
    updateName_found [OF found, of hashPIN newName pin]
  show "\<exists>i. findAccount accounts n = Some i
       \<and> i < length accounts \<and> accountNum (accounts ! i) = n
       \<and> (\<forall>k<i. accountNum (accounts ! k) \<noteq> n)
       \<and> closeAccount hashPIN accounts n pin =
            (if \<not> verifyPIN hashPIN (accounts ! i) pin then (Authentication_failed, accounts)
             else (Done, take i accounts @ drop (Suc i) accounts))
       \<and> deposit hashPIN accounts n amount pin =
            (if \<not> verifyPIN hashPIN (accounts ! i) pin then (Authentication_failed, accounts)
             else if dle amount (Finite 0) then (Threw InvalidDeposit, accounts)
             else (Done, accounts[i := (accounts ! i)\<lparr>balance := dadd (balance (accounts ! i)) amount\<rparr>]))
       \<and> withdraw hashPIN accounts n amount pin =
            (if \<not> verifyPIN hashPIN (accounts ! i) pin then (Authentication_failed, accounts)
             else if dle amount (Finite 0) then (Threw InvalidWithdrawal, accounts)
             else if dless (balance (accounts ! i)) amount then (Threw InsufficientFunds, accounts)
             else (Done, accounts[i := (accounts ! i)\<lparr>balance := dsub (balance (accounts ! i)) amount\<rparr>]))
       \<and> updateName hashPIN accounts n newName pin =
            (if \<not> verifyPIN hashPIN (accounts ! i) pin then (Authentication_failed, accounts)
             else if newName = [] then (Threw EmptyName, accounts)
             else (Done, accounts[i := (accounts ! i)\<lparr>name := newName\<rparr>]))
       \<and> (\<forall>m. m \<in> accountNum ` set accounts \<and> n \<noteq> m \<longrightarrow>
             (\<exists>j. findAccount accounts m = Some j
               \<and> j < length accounts \<and> accountNum (accounts ! j) = m
               \<and> (\<forall>k<j. accountNum (accounts ! k) \<noteq> m)
               \<and> transfer hashPIN accounts n m amount pin =
                  (if \<not> verifyPIN hashPIN (accounts ! i) pin then (Authentication_failed, accounts)
                   else if dle amount (Finite 0) then (Threw InvalidWithdrawal, accounts)
                   else if dless (balance (accounts ! i)) amount
                   then (Threw InsufficientFunds, accounts)
                   else (Done, accounts[i := (accounts ! i)\<lparr>balance := dsub (balance (accounts ! i)) amount\<rparr>,
                                        j := (accounts ! j)\<lparr>balance := dadd (balance (accounts ! j)) amount\<rparr>]))))"
    by (intro exI [of _ i] conjI) blast+
qed

text \<open>
  A ledger that holds the number 7 twice (as the file with two such lines loads), Bob
  and Alice. The handle for 7 is position 0, although position 1 holds 7 too. The PIN
  that counts is the first account's: with it, closing 7 removes the first of the two
  and keeps the second; a deposit, a withdrawal, a new name and a transfer to Bob
  reach the first only. The second account's PIN is refused.
\<close>

theorem first_match_is_acted_on_witness:
  "7 \<in> accountNum ` set [twin_a, twin_b, bob, alice]
   \<and> findAccount [twin_a, twin_b, bob, alice] 7 = Some 0
   \<and> accountNum ([twin_a, twin_b, bob, alice] ! 1) = 7
   \<and> closeAccount demo_hash [twin_a, twin_b, bob, alice] 7 ''1234'' = (Done, [twin_b, bob, alice])
   \<and> closeAccount demo_hash [twin_a, twin_b, bob, alice] 7 ''5678''
       = (Authentication_failed, [twin_a, twin_b, bob, alice])
   \<and> deposit demo_hash [twin_a, twin_b, bob, alice] 7 (Finite 5) ''1234''
       = (Done, [twin_a\<lparr>balance := Finite 15\<rparr>, twin_b, bob, alice])
   \<and> withdraw demo_hash [twin_a, twin_b, bob, alice] 7 (Finite 4) ''1234''
       = (Done, [twin_a\<lparr>balance := Finite 6\<rparr>, twin_b, bob, alice])
   \<and> updateName demo_hash [twin_a, twin_b, bob, alice] 7 ''renamed'' ''1234''
       = (Done, [twin_a\<lparr>name := ''renamed''\<rparr>, twin_b, bob, alice])
   \<and> transfer demo_hash [twin_a, twin_b, bob, alice] 7 1002 (Finite 10) ''1234''
       = (Done, [twin_a\<lparr>balance := Finite 0\<rparr>, twin_b, bob\<lparr>balance := Finite 60\<rparr>, alice])"
proof -
  define ledger where "ledger = [twin_a, twin_b, bob, alice]"
  have present: "7 \<in> accountNum ` set ledger"
    by (simp add: ledger_def twin_a_def)
  have found: "findAccount ledger 7 = Some 0"
    by (simp add: ledger_def twin_a_def)
  have second: "accountNum (ledger ! 1) = 7"
    by (simp add: ledger_def twin_b_def)
  have target: "1002 \<in> accountNum ` set ledger \<and> (7::int) \<noteq> 1002
      \<and> findAccount ledger 1002 = Some 2"
    by (simp add: ledger_def twin_a_def twin_b_def bob_fields)
  have right: "verifyPIN demo_hash (ledger ! 0) ''1234''"
    by (simp add: ledger_def verifyPIN_def twin_a_def demo_hash_1234)
  have wrong: "\<not> verifyPIN demo_hash (ledger ! 0) ''5678''"
    by (simp add: ledger_def verifyPIN_def twin_a_def demo_hash_5678)
  have sums: "dadd (Finite 10) (Finite 5) = Finite 15" "dsub (Finite 10) (Finite 4) = Finite 6"
    "dsub (Finite 10) (Finite 10) = Finite 0" "dadd (Finite 50) (Finite 10) = Finite 60"
    by (simp_all add: double_simps)
  have guards: "\<not> dle (Finite 5) (Finite 0)" "\<not> dle (Finite 4) (Finite 0)"
    "\<not> dle (Finite 10) (Finite 0)" "\<not> dless (Finite 10) (Finite 4)"
    "\<not> dless (Finite 10) (Finite 10)"
    by (simp_all add: dle_def dless_def)
  have acts: "closeAccount demo_hash ledger 7 pin =
            (if \<not> verifyPIN demo_hash (ledger ! 0) pin then (Authentication_failed, ledger)
             else (Done, take 0 ledger @ drop (Suc 0) ledger))
       \<and> deposit demo_hash ledger 7 amount pin =
            (if \<not> verifyPIN demo_hash (ledger ! 0) pin then (Authentication_failed, ledger)
             else if dle amount (Finite 0) then (Threw InvalidDeposit, ledger)
             else (Done, ledger[0 := (ledger ! 0)\<lparr>balance := dadd (balance (ledger ! 0)) amount\<rparr>]))
       \<and> withdraw demo_hash ledger 7 amount pin =
            (if \<not> verifyPIN demo_hash (ledger ! 0) pin then (Authentication_failed, ledger)
             else if dle amount (Finite 0) then (Threw InvalidWithdrawal, ledger)
             else if dless (balance (ledger ! 0)) amount then (Threw InsufficientFunds, ledger)
             else (Done, ledger[0 := (ledger ! 0)\<lparr>balance := dsub (balance (ledger ! 0)) amount\<rparr>]))
       \<and> updateName demo_hash ledger 7 newName pin =
            (if \<not> verifyPIN demo_hash (ledger ! 0) pin then (Authentication_failed, ledger)
             else if newName = [] then (Threw EmptyName, ledger)
             else (Done, ledger[0 := (ledger ! 0)\<lparr>name := newName\<rparr>]))
       \<and> transfer demo_hash ledger 7 1002 amount pin =
            (if \<not> verifyPIN demo_hash (ledger ! 0) pin then (Authentication_failed, ledger)
             else if dle amount (Finite 0) then (Threw InvalidWithdrawal, ledger)
             else if dless (balance (ledger ! 0)) amount then (Threw InsufficientFunds, ledger)
             else (Done, ledger[0 := (ledger ! 0)\<lparr>balance := dsub (balance (ledger ! 0)) amount\<rparr>,
                                2 := (ledger ! 2)\<lparr>balance := dadd (balance (ledger ! 2)) amount\<rparr>]))"
    for pin amount newName
  proof -
    from first_match_is_acted_on [where accounts = ledger and n = 7 and hashPIN = demo_hash
        and pin = pin and amount = amount and newName = newName, THEN mp, OF present]
    obtain i where i: "findAccount ledger 7 = Some i"
      and c: "closeAccount demo_hash ledger 7 pin =
            (if \<not> verifyPIN demo_hash (ledger ! i) pin then (Authentication_failed, ledger)
             else (Done, take i ledger @ drop (Suc i) ledger))"
      and d: "deposit demo_hash ledger 7 amount pin =
            (if \<not> verifyPIN demo_hash (ledger ! i) pin then (Authentication_failed, ledger)
             else if dle amount (Finite 0) then (Threw InvalidDeposit, ledger)
             else (Done, ledger[i := (ledger ! i)\<lparr>balance := dadd (balance (ledger ! i)) amount\<rparr>]))"
      and w: "withdraw demo_hash ledger 7 amount pin =
            (if \<not> verifyPIN demo_hash (ledger ! i) pin then (Authentication_failed, ledger)
             else if dle amount (Finite 0) then (Threw InvalidWithdrawal, ledger)
             else if dless (balance (ledger ! i)) amount then (Threw InsufficientFunds, ledger)
             else (Done, ledger[i := (ledger ! i)\<lparr>balance := dsub (balance (ledger ! i)) amount\<rparr>]))"
      and u: "updateName demo_hash ledger 7 newName pin =
            (if \<not> verifyPIN demo_hash (ledger ! i) pin then (Authentication_failed, ledger)
             else if newName = [] then (Threw EmptyName, ledger)
             else (Done, ledger[i := (ledger ! i)\<lparr>name := newName\<rparr>]))"
      and moves: "\<forall>m. m \<in> accountNum ` set ledger \<and> 7 \<noteq> m \<longrightarrow>
             (\<exists>j. findAccount ledger m = Some j
               \<and> j < length ledger \<and> accountNum (ledger ! j) = m
               \<and> (\<forall>k<j. accountNum (ledger ! k) \<noteq> m)
               \<and> transfer demo_hash ledger 7 m amount pin =
                  (if \<not> verifyPIN demo_hash (ledger ! i) pin then (Authentication_failed, ledger)
                   else if dle amount (Finite 0) then (Threw InvalidWithdrawal, ledger)
                   else if dless (balance (ledger ! i)) amount
                   then (Threw InsufficientFunds, ledger)
                   else (Done, ledger[i := (ledger ! i)\<lparr>balance := dsub (balance (ledger ! i)) amount\<rparr>,
                                      j := (ledger ! j)\<lparr>balance := dadd (balance (ledger ! j)) amount\<rparr>])))"
      by (elim exE conjE) (rule that; assumption)
    have "1002 \<in> accountNum ` set ledger \<and> (7::int) \<noteq> 1002"
      using target by simp
    from moves [rule_format, OF this]
    obtain j where j: "findAccount ledger 1002 = Some j"
      and t: "transfer demo_hash ledger 7 1002 amount pin =
                  (if \<not> verifyPIN demo_hash (ledger ! i) pin then (Authentication_failed, ledger)
                   else if dle amount (Finite 0) then (Threw InvalidWithdrawal, ledger)
                   else if dless (balance (ledger ! i)) amount
                   then (Threw InsufficientFunds, ledger)
                   else (Done, ledger[i := (ledger ! i)\<lparr>balance := dsub (balance (ledger ! i)) amount\<rparr>,
                                      j := (ledger ! j)\<lparr>balance := dadd (balance (ledger ! j)) amount\<rparr>]))"
      by (elim exE conjE) (rule that; assumption)
    from i found have i0: "i = 0" by simp
    from j target have j2: "j = 2" by simp
    from c d w u t show ?thesis unfolding i0 j2 by (intro conjI)
  qed
  have c1: "closeAccount demo_hash ledger 7 ''1234'' = (Done, [twin_b, bob, alice])"
    using acts [of "''1234''"] right by (simp add: ledger_def)
  have c2: "closeAccount demo_hash ledger 7 ''5678'' = (Authentication_failed, ledger)"
    using acts [of "''5678''"] wrong by simp
  have d: "deposit demo_hash ledger 7 (Finite 5) ''1234''
             = (Done, [twin_a\<lparr>balance := Finite 15\<rparr>, twin_b, bob, alice])"
    using acts [of "''1234''" "Finite 5"] right guards sums
    by (simp add: ledger_def twin_a_def)
  have w: "withdraw demo_hash ledger 7 (Finite 4) ''1234''
             = (Done, [twin_a\<lparr>balance := Finite 6\<rparr>, twin_b, bob, alice])"
    using acts [of "''1234''" "Finite 4"] right guards sums
    by (simp add: ledger_def twin_a_def)
  have u: "updateName demo_hash ledger 7 ''renamed'' ''1234''
             = (Done, [twin_a\<lparr>name := ''renamed''\<rparr>, twin_b, bob, alice])"
    using acts [of "''1234''" _ "''renamed''"] right by (simp add: ledger_def)
  have t: "transfer demo_hash ledger 7 1002 (Finite 10) ''1234''
             = (Done, [twin_a\<lparr>balance := Finite 0\<rparr>, twin_b, bob\<lparr>balance := Finite 60\<rparr>, alice])"
    using acts [of "''1234''" "Finite 10"] right guards sums
    by (simp add: ledger_def twin_a_def bob_fields)
  from present found second c1 c2 d w u t show ?thesis
    by (simp add: ledger_def)
qed

section \<open>Creating accounts\<close>

lemma list_ex_accountNum:
  "list_ex (\<lambda>acc. accountNum acc = ac) accounts \<longleftrightarrow> ac \<in> accountNum ` set accounts"
  by (auto simp: list_ex_iff)









section \<open>Loading from a path that does not exist\<close>

text \<open>
  Claim C9, as the code has it. When the path does not exist, \<^verbatim>\<open>loadFromFile\<close> returns
  before it clears the vector: it throws nothing and leaves the ledger as it was. The
  ledger is empty afterwards when it was empty before, as it is where \<^verbatim>\<open>main\<close> calls
  \<^verbatim>\<open>loadFromFile\<close> at startup.
\<close>

theorem loadFromFile_missing_path:
  "files filename = None \<longrightarrow>
     loadFromFile files filename accounts = accounts \<and> loadFromFile files filename [] = []"
  by (simp add: loadFromFile_def)

theorem loadFromFile_missing_path_witness:
  "Map.empty ''accounts_secure.txt'' = (None :: string option)
   \<and> loadFromFile Map.empty ''accounts_secure.txt'' [alice, bob] = [alice, bob]
   \<and> loadFromFile Map.empty ''accounts_secure.txt'' [] = []"
  using loadFromFile_missing_path [of Map.empty "''accounts_secure.txt''" "[alice, bob]"]
  by simp

text \<open>
  Where the claim as written fails: a ledger that holds Alice, and no file at the path.
  The ledger still holds Alice afterwards.
\<close>

theorem loadFromFile_missing_path_counterexample:
  "Map.empty ''accounts_secure.txt'' = (None :: string option)
   \<and> loadFromFile Map.empty ''accounts_secure.txt'' [alice] = [alice]
   \<and> [alice] \<noteq> []"
  by (simp add: loadFromFile_def)


section \<open>What every operation preserves\<close>

text \<open>
  A successful account operation keeps the number. It does not make a balance
  negative or NaN that was not, when the amount is a number (for a deposit) and finite
  (for a withdrawal).
\<close>

lemma BankAccount_deposit_keeps:
  "BankAccount_deposit acc amount = Inr acc' \<Longrightarrow>
   accountNum acc' = accountNum acc \<and>
   (\<not> is_nan amount \<and> dle (Finite 0) (balance acc) \<longrightarrow> dle (Finite 0) (balance acc'))"
  by (auto simp: BankAccount_deposit_def dadd_keeps_nonneg split: if_splits)

lemma BankAccount_withdraw_keeps:
  "BankAccount_withdraw acc amount = Inr acc' \<Longrightarrow>
   accountNum acc' = accountNum acc \<and>
   (is_finite amount \<and> dle (Finite 0) (balance acc) \<longrightarrow> dle (Finite 0) (balance acc'))"
  by (auto simp: BankAccount_withdraw_def dsub_keeps_nonneg dle_zero_not_nan split: if_splits)

lemma BankAccount_updateName_keeps:
  "BankAccount_updateName acc newName = Inr acc' \<Longrightarrow>
   accountNum acc' = accountNum acc \<and>
   (dle (Finite 0) (balance acc) \<longrightarrow> dle (Finite 0) (balance acc'))"
  by (auto simp: BankAccount_updateName_def split: if_splits)

lemma is_finite_not_nan: "is_finite d \<Longrightarrow> \<not> is_nan d"
  by (cases d) auto

lemma update_keeps_numbers_unique:
  assumes "i < length accounts" and "accountNum acc' = accountNum (accounts ! i)"
    and "numbers_unique accounts"
  shows "numbers_unique (accounts[i := acc'])"
  using assms by (simp add: numbers_unique_def map_accountNum_update)

lemma balances_nonneg_nth:
  "balances_nonneg accounts \<Longrightarrow> i < length accounts \<Longrightarrow> dle (Finite 0) (balance (accounts ! i))"
  by (simp add: balances_nonneg_def list_all_length)

lemma update_keeps_balances_nonneg:
  assumes "dle (Finite 0) (balance acc')" and "balances_nonneg accounts"
  shows "balances_nonneg (accounts[i := acc'])"
proof -
  have "set (accounts[i := acc']) \<subseteq> insert acc' (set accounts)"
    by (rule set_update_subset_insert)
  with assms show ?thesis
    by (auto simp: balances_nonneg_def list_all_iff)
qed

text \<open>The shapes the vector can have after each operation.\<close>

lemma deposit_result:
  "snd (deposit hashPIN accounts n amount pin) = accounts \<or>
   (\<exists>i acc'. i < length accounts \<and> BankAccount_deposit (accounts ! i) amount = Inr acc' \<and>
      snd (deposit hashPIN accounts n amount pin) = accounts[i := acc'])"
  by (auto simp: deposit_def split: option.splits sum.splits dest: findAccount_bound)

lemma withdraw_result:
  "snd (withdraw hashPIN accounts n amount pin) = accounts \<or>
   (\<exists>i acc'. i < length accounts \<and> BankAccount_withdraw (accounts ! i) amount = Inr acc' \<and>
      snd (withdraw hashPIN accounts n amount pin) = accounts[i := acc'])"
  by (auto simp: withdraw_def split: option.splits sum.splits dest: findAccount_bound)

lemma updateName_result:
  "snd (updateName hashPIN accounts n newName pin) = accounts \<or>
   (\<exists>i acc'. i < length accounts \<and> BankAccount_updateName (accounts ! i) newName = Inr acc' \<and>
      snd (updateName hashPIN accounts n newName pin) = accounts[i := acc'])"
  by (auto simp: updateName_def split: option.splits sum.splits dest: findAccount_bound)

lemma closeAccount_result:
  "snd (closeAccount hashPIN accounts n pin) = accounts \<or>
   (\<exists>i. i < length accounts \<and>
      snd (closeAccount hashPIN accounts n pin) = take i accounts @ drop (Suc i) accounts)"
  by (auto simp: closeAccount_def split: option.splits dest: findAccount_bound)

lemma transfer_result:
  "snd (transfer hashPIN accounts a b amount pin) = accounts \<or>
   (\<exists>i j acc'. i < length accounts \<and> j < length accounts \<and>
      BankAccount_withdraw (accounts ! i) amount = Inr acc' \<and>
      (snd (transfer hashPIN accounts a b amount pin) = accounts[i := acc'] \<or>
       (\<exists>acc''. BankAccount_deposit (accounts[i := acc'] ! j) amount = Inr acc'' \<and>
          snd (transfer hashPIN accounts a b amount pin) = accounts[i := acc', j := acc''])))"
proof (cases "findAccount accounts a")
  case None
  then show ?thesis by (simp add: transfer_def)
next
  case src: (Some i)
  show ?thesis
  proof (cases "findAccount accounts b")
    case None
    with src show ?thesis by (simp add: transfer_def)
  next
    case dst: (Some j)
    have i: "i < length accounts" and j: "j < length accounts"
      using src dst by (simp_all add: findAccount_bound)
    show ?thesis
    proof (cases "BankAccount_withdraw (accounts ! i) amount")
      case (Inl e)
      with src dst show ?thesis by (simp add: transfer_def)
    next
      case taken: (Inr acc')
      show ?thesis
      proof (cases "BankAccount_deposit (accounts[i := acc'] ! j) amount")
        case (Inl e)
        with src dst taken i j show ?thesis
          by (auto simp: transfer_def)
      next
        case (Inr acc'')
        with src dst taken i j show ?thesis
          by (auto simp: transfer_def)
      qed
    qed
  qed
qed

lemma take_drop_keeps_invariants:
  assumes "i < length accounts"
  shows "numbers_unique accounts \<Longrightarrow> numbers_unique (take i accounts @ drop (Suc i) accounts)"
    and "balances_nonneg accounts \<Longrightarrow> balances_nonneg (take i accounts @ drop (Suc i) accounts)"
proof -
  assume "numbers_unique accounts"
  then have "distinct (map accountNum (take i accounts @ accounts ! i # drop (Suc i) accounts))"
    using assms by (simp add: numbers_unique_def flip: id_take_nth_drop)
  then show "numbers_unique (take i accounts @ drop (Suc i) accounts)"
    by (simp add: numbers_unique_def)
next
  assume "balances_nonneg accounts"
  then have "\<forall>acc \<in> set accounts. dle (Finite 0) (balance acc)"
    by (simp add: balances_nonneg_def list_all_iff)
  then have "\<forall>acc \<in> set (take i accounts @ drop (Suc i) accounts). dle (Finite 0) (balance acc)"
    by (auto dest: in_set_takeD in_set_dropD)
  then show "balances_nonneg (take i accounts @ drop (Suc i) accounts)"
    by (simp add: balances_nonneg_def list_all_iff)
qed

lemma permutation_keeps_invariants:
  assumes "mset accounts' = mset accounts"
  shows "numbers_unique accounts \<Longrightarrow> numbers_unique accounts'"
    and "balances_nonneg accounts \<Longrightarrow> balances_nonneg accounts'"
proof -
  have "mset (map accountNum accounts') = mset (map accountNum accounts)"
    using assms by (metis mset_map)
  then have "distinct (map accountNum accounts') \<longleftrightarrow> distinct (map accountNum accounts)"
    by (rule mset_eq_imp_distinct_iff)
  then show "numbers_unique accounts \<Longrightarrow> numbers_unique accounts'"
    by (simp add: numbers_unique_def)
next
  have "set accounts' = set accounts" using assms by (rule mset_eq_setD)
  then show "balances_nonneg accounts \<Longrightarrow> balances_nonneg accounts'"
    by (simp add: balances_nonneg_def list_all_iff)
qed

lemma deposit_keeps_invariants:
  shows "numbers_unique accounts \<Longrightarrow> numbers_unique (snd (deposit hashPIN accounts n amount pin))"
    and "balances_nonneg accounts \<Longrightarrow> \<not> is_nan amount \<Longrightarrow>
         balances_nonneg (snd (deposit hashPIN accounts n amount pin))"
proof -
  show "numbers_unique (snd (deposit hashPIN accounts n amount pin))"
    if "numbers_unique accounts"
    using deposit_result [of hashPIN accounts n amount pin] that
    by (auto dest!: BankAccount_deposit_keeps intro: update_keeps_numbers_unique)
  show "balances_nonneg (snd (deposit hashPIN accounts n amount pin))"
    if "balances_nonneg accounts" "\<not> is_nan amount"
    using deposit_result [of hashPIN accounts n amount pin] that
    by (auto dest!: BankAccount_deposit_keeps
             intro!: update_keeps_balances_nonneg balances_nonneg_nth)
qed

lemma withdraw_keeps_invariants:
  shows "numbers_unique accounts \<Longrightarrow> numbers_unique (snd (withdraw hashPIN accounts n amount pin))"
    and "balances_nonneg accounts \<Longrightarrow> is_finite amount \<Longrightarrow>
         balances_nonneg (snd (withdraw hashPIN accounts n amount pin))"
proof -
  show "numbers_unique (snd (withdraw hashPIN accounts n amount pin))"
    if "numbers_unique accounts"
    using withdraw_result [of hashPIN accounts n amount pin] that
    by (auto dest!: BankAccount_withdraw_keeps intro: update_keeps_numbers_unique)
  show "balances_nonneg (snd (withdraw hashPIN accounts n amount pin))"
    if "balances_nonneg accounts" "is_finite amount"
    using withdraw_result [of hashPIN accounts n amount pin] that
    by (auto dest!: BankAccount_withdraw_keeps
             intro!: update_keeps_balances_nonneg balances_nonneg_nth)
qed

lemma updateName_keeps_invariants:
  shows "numbers_unique accounts \<Longrightarrow> numbers_unique (snd (updateName hashPIN accounts n newName pin))"
    and "balances_nonneg accounts \<Longrightarrow> balances_nonneg (snd (updateName hashPIN accounts n newName pin))"
proof -
  show "numbers_unique (snd (updateName hashPIN accounts n newName pin))"
    if "numbers_unique accounts"
    using updateName_result [of hashPIN accounts n newName pin] that
    by (auto dest!: BankAccount_updateName_keeps intro: update_keeps_numbers_unique)
  show "balances_nonneg (snd (updateName hashPIN accounts n newName pin))"
    if "balances_nonneg accounts"
    using updateName_result [of hashPIN accounts n newName pin] that
    by (auto dest!: BankAccount_updateName_keeps
             intro!: update_keeps_balances_nonneg balances_nonneg_nth)
qed

lemma closeAccount_keeps_invariants:
  shows "numbers_unique accounts \<Longrightarrow> numbers_unique (snd (closeAccount hashPIN accounts n pin))"
    and "balances_nonneg accounts \<Longrightarrow> balances_nonneg (snd (closeAccount hashPIN accounts n pin))"
  using closeAccount_result [of hashPIN accounts n pin]
  by (auto intro: take_drop_keeps_invariants)

lemma transfer_keeps_invariants:
  shows "numbers_unique accounts \<Longrightarrow>
         numbers_unique (snd (transfer hashPIN accounts a b amount pin))"
    and "balances_nonneg accounts \<Longrightarrow> is_finite amount \<Longrightarrow>
         balances_nonneg (snd (transfer hashPIN accounts a b amount pin))"
proof -
  let ?after = "snd (transfer hashPIN accounts a b amount pin)"
  have both: "(numbers_unique accounts \<longrightarrow> numbers_unique ?after)
            \<and> (balances_nonneg accounts \<and> is_finite amount \<longrightarrow> balances_nonneg ?after)"
    using transfer_result [of hashPIN accounts a b amount pin]
  proof (elim disjE exE conjE)
    assume "?after = accounts"
    then show ?thesis by simp
  next
    fix i j acc'
    assume i: "i < length accounts"
      and taken: "BankAccount_withdraw (accounts ! i) amount = Inr acc'"
      and after: "?after = accounts[i := acc']"
    from BankAccount_withdraw_keeps [OF taken] i show ?thesis
      unfolding after
      by (auto intro: update_keeps_numbers_unique
               intro!: update_keeps_balances_nonneg balances_nonneg_nth)
  next
    fix i j acc' acc''
    assume i: "i < length accounts" and j: "j < length accounts"
      and taken: "BankAccount_withdraw (accounts ! i) amount = Inr acc'"
      and given: "BankAccount_deposit (accounts[i := acc'] ! j) amount = Inr acc''"
      and after: "?after = accounts[i := acc', j := acc'']"
    have j': "j < length (accounts[i := acc'])" using j by simp
    have step1: "(numbers_unique accounts \<longrightarrow> numbers_unique (accounts[i := acc']))
               \<and> (balances_nonneg accounts \<and> is_finite amount \<longrightarrow>
                    balances_nonneg (accounts[i := acc']))"
      using BankAccount_withdraw_keeps [OF taken] i
      by (auto intro: update_keeps_numbers_unique
               intro!: update_keeps_balances_nonneg balances_nonneg_nth)
    have step2: "(numbers_unique (accounts[i := acc']) \<longrightarrow>
                    numbers_unique (accounts[i := acc', j := acc'']))
               \<and> (balances_nonneg (accounts[i := acc']) \<and> is_finite amount \<longrightarrow>
                    balances_nonneg (accounts[i := acc', j := acc'']))"
    proof (intro conjI impI)
      assume "numbers_unique (accounts[i := acc'])"
      with BankAccount_deposit_keeps [OF given] j'
      show "numbers_unique (accounts[i := acc', j := acc''])"
        by (auto intro: update_keeps_numbers_unique)
    next
      assume inv: "balances_nonneg (accounts[i := acc']) \<and> is_finite amount"
      then have "dle (Finite 0) (balance (accounts[i := acc'] ! j))"
        using j' by (simp add: balances_nonneg_nth)
      with BankAccount_deposit_keeps [OF given] inv have "dle (Finite 0) (balance acc'')"
        by (simp add: is_finite_not_nan)
      with inv show "balances_nonneg (accounts[i := acc', j := acc''])"
        by (simp add: update_keeps_balances_nonneg)
    qed
    from step1 step2 show ?thesis unfolding after by blast
  qed
  from both show "numbers_unique accounts \<Longrightarrow> numbers_unique ?after" by blast
  from both show "balances_nonneg accounts \<Longrightarrow> is_finite amount \<Longrightarrow> balances_nonneg ?after"
    by blast
qed

lemma addAccount_keeps_numbers_unique:
  "numbers_unique accounts \<Longrightarrow> numbers_unique (snd (addAccount hashPIN accounts n ac bal pin))"
  by (auto simp: addAccount_def numbers_unique_def BankAccount_new_def list_ex_accountNum)

lemma addAccount_keeps_balances_nonneg:
  "balances_nonneg accounts \<Longrightarrow> dle (Finite 0) bal \<Longrightarrow>
   balances_nonneg (snd (addAccount hashPIN accounts n ac bal pin))"
  by (auto simp: addAccount_def balances_nonneg_def BankAccount_new_def)

text \<open>A withdrawal or transfer of more than the source holds changes nothing.\<close>

lemma withdraw_overdraft_rejected:
  "findAccount accounts n = Some i \<Longrightarrow> dless (balance (accounts ! i)) amount \<Longrightarrow>
   snd (withdraw hashPIN accounts n amount pin) = accounts \<and>
   fst (withdraw hashPIN accounts n amount pin) \<noteq> Done"
  by (simp add: withdraw_def BankAccount_withdraw_def)

lemma transfer_overdraft_rejected:
  "findAccount accounts a = Some i \<Longrightarrow> dless (balance (accounts ! i)) amount \<Longrightarrow>
   snd (transfer hashPIN accounts a b amount pin) = accounts \<and>
   fst (transfer hashPIN accounts a b amount pin) \<noteq> Done"
  by (simp add: transfer_def BankAccount_withdraw_def split: option.splits)

section \<open>Evaluating save and load on concrete text\<close>

lemma leading_zeros_numeral:
  "replicate (numeral k) (CHR ''0'') = CHR ''0'' # replicate (pred_numeral k) (CHR ''0'')"
  by (simp add: numeral_eq_Suc)

lemmas write_simps = leading_zeros_numeral
  save_def show_int_def show_size_t_def show_double_def show_g6_def sig6_def
  dec_exponent_def dec_exp_up.simps dec_exp_down.simps scale10_def round_half_even_def
  fraction_def strip_zeros_def show_exponent_def show_nat.simps digit_char_def
  show_quoted_def delim_def escape_def Let_def

lemmas read_simps =
  load_def extract_int_def extract_double_def read_decimal_def extract_size_t_def
  extract_quoted_def read_sign_def read_digits_def read_point_def read_exponent_def
  skipws_def isspace_def isdigit_def digits_val_def digit_val_def scale10_def delim_def
  escape_def nearest_double_def bin_exponent_def bin_exp_up.simps bin_exp_down.simps
  scale2_def round_half_even_def Let_def

text \<open>
  How balances are written: up to six significant digits are kept as they are, a
  seventh is rounded away.
\<close>

lemma show_double_examples:
  "show_double (Finite 100) = ''100''"
  "show_double (Finite (80 + 1 / 4)) = ''80.25''"
  "show_double (Finite (- 10)) = ''-10''"
  "show_double (Finite 123456) = ''123456''"
  "show_double (Finite 1234567) = ''1.23457e+06''"
  "show_double (Finite (100 + 1 / 32)) = ''100.031''"
  "show_double (Finite (1 / 1024)) = ''0.000976562''"
  "show_double (Finite (10 ^ 16)) = ''1e+16''"
  "show_double NegZero = ''-0''"
  "show_double (Infinity False) = ''inf''"
  "show_double (NaN True) = ''-nan''"
  by (simp_all add: write_simps)

text \<open>How balances are read: the nearest \<^verbatim>\<open>double\<close>; too large a number fails.\<close>

lemma extract_double_examples:
  "extract_double ''100 '' = Some (Finite 100, '' '')"
  "extract_double '' -10.5e1x'' = Some (Finite (- 105), ''x'')"
  "extract_double ''0.1'' = Some (Finite (3602879701896397 / 2 ^ 55), [])"
  "extract_double ''-0 '' = Some (NegZero, '' '')"
  "extract_double ''inf '' = None"
  "extract_double ''1e+ '' = None"
  by (simp_all add: read_simps)

lemma load_end_of_file: "load [CHR 0x0A] = None"
  by (simp add: read_simps)

lemma load_overdrawn_file:
  "load overdrawn_file =
     Some (\<lparr>name = ''x'', accountNum = 1, balance = Finite (- 10), pinHash = 1234\<rparr>, [CHR 0x0A])"
  by (simp add: overdrawn_file_def read_simps)

lemma loadAll_overdrawn_file:
  "loadAll overdrawn_file = [\<lparr>name = ''x'', accountNum = 1, balance = Finite (- 10), pinHash = 1234\<rparr>]"
  by (simp add: loadAll.simps [of overdrawn_file] loadAll.simps [of "[CHR 0x0A]"]
        load_overdrawn_file load_end_of_file)

lemma load_twin_file: "load twin_file = Some (twin_a, twin_file_rest)"
  by (simp add: twin_file_def twin_a_def read_simps)

lemma load_twin_file_rest: "load twin_file_rest = Some (twin_b, [CHR 0x0A])"
  by (simp add: twin_file_rest_def twin_b_def read_simps)

lemma loadAll_twin_file: "loadAll twin_file = [twin_a, twin_b]"
  by (simp add: loadAll.simps [of twin_file] loadAll.simps [of twin_file_rest]
        loadAll.simps [of "[CHR 0x0A]"] load_twin_file load_twin_file_rest load_end_of_file)

lemma twin_file_is_saved_text: "concat (map save [twin_a, twin_b]) = twin_file"
  by (simp add: twin_file_def twin_file_rest_def twin_a_def twin_b_def write_simps)


section \<open>Reading back what was written\<close>

subsection \<open>Digits\<close>

lemma isdigit_digit_char: "d < 10 \<Longrightarrow> isdigit (digit_char d)"
proof -
  assume "d < 10"
  then have "d \<in> {0, 1, 2, 3, 4, 5, 6, 7, 8, 9}" by auto
  then show ?thesis by (auto simp: isdigit_def digit_char_def)
qed

lemma digit_val_digit_char: "d < 10 \<Longrightarrow> digit_val (digit_char d) = d"
proof -
  assume "d < 10"
  then have "d \<in> {0, 1, 2, 3, 4, 5, 6, 7, 8, 9}" by auto
  then show ?thesis by (auto simp: digit_val_def digit_char_def)
qed

lemma digits_val_snoc: "digits_val (ds @ [c]) = 10 * digits_val ds + digit_val c"
  by (simp add: digits_val_def)

lemma digits_val_Nil: "digits_val [] = 0"
  by (simp add: digits_val_def)

lemma digits_val_append:
  "digits_val (xs @ ys) = digits_val xs * 10 ^ length ys + digits_val ys"
proof (induction ys rule: rev_induct)
  case Nil
  show ?case by (simp add: digits_val_Nil)
next
  case (snoc y ys)
  have "digits_val (xs @ ys @ [y]) = 10 * digits_val (xs @ ys) + digit_val y"
    using digits_val_snoc [of "xs @ ys" y] by simp
  also have "\<dots> = 10 * (digits_val xs * 10 ^ length ys + digits_val ys) + digit_val y"
    by (simp add: snoc.IH)
  also have "\<dots> = digits_val xs * 10 ^ length (ys @ [y]) + digits_val (ys @ [y])"
    by (simp add: digits_val_snoc algebra_simps)
  finally show ?case by simp
qed

lemma show_nat_digits: "list_all isdigit (show_nat n)"
proof (induction n rule: show_nat.induct)
  case (1 n)
  show ?case
  proof (cases "n < 10")
    case True
    then show ?thesis by (simp add: show_nat.simps [of n] isdigit_digit_char)
  next
    case False
    with "1" have "list_all isdigit (show_nat (n div 10))" by simp
    moreover have "isdigit (digit_char (n mod 10))" by (simp add: isdigit_digit_char)
    ultimately show ?thesis using False by (simp add: show_nat.simps [of n])
  qed
qed

lemma show_nat_nonempty: "show_nat n \<noteq> []"
  by (simp add: show_nat.simps [of n])

lemma digits_val_show_nat: "digits_val (show_nat n) = n"
proof (induction n rule: show_nat.induct)
  case (1 n)
  show ?case
  proof (cases "n < 10")
    case True
    then show ?thesis
      by (simp add: show_nat.simps [of n] digits_val_def digit_val_digit_char)
  next
    case False
    with "1" have "digits_val (show_nat (n div 10)) = n div 10" by simp
    then show ?thesis
      using False by (simp add: show_nat.simps [of n] digits_val_snoc digit_val_digit_char)
  qed
qed

text \<open>Digits followed by a character that is not a digit are read up to that character.\<close>

lemma takeWhile_digits:
  "list_all isdigit ds \<Longrightarrow> \<not> isdigit c \<Longrightarrow> takeWhile isdigit (ds @ c # rest) = ds"
  by (simp add: list_all_iff takeWhile_append2)

lemma dropWhile_digits:
  "list_all isdigit ds \<Longrightarrow> \<not> isdigit c \<Longrightarrow> dropWhile isdigit (ds @ c # rest) = c # rest"
  by (simp add: list_all_iff dropWhile_append2)

lemma read_digits_digits:
  "list_all isdigit ds \<Longrightarrow> ds \<noteq> [] \<Longrightarrow> \<not> isdigit c \<Longrightarrow>
   read_digits (ds @ c # rest) = Some (digits_val ds, c # rest)"
  by (simp add: read_digits_def takeWhile_digits dropWhile_digits)

lemma read_digits_show_nat:
  "\<not> isdigit c \<Longrightarrow> read_digits (show_nat n @ c # rest) = Some (n, c # rest)"
  using read_digits_digits [OF show_nat_digits show_nat_nonempty, of c n rest]
  by (simp add: digits_val_show_nat)

lemma digit_is_no_sign: "isdigit c \<Longrightarrow> c \<noteq> CHR ''-'' \<and> c \<noteq> CHR ''+'' \<and> \<not> isspace c"
  by (auto simp: isdigit_def isspace_def)

lemma read_sign_digit: "isdigit c \<Longrightarrow> read_sign (c # s) = (False, c # s)"
  using digit_is_no_sign [of c] by (simp add: read_sign_def)

lemma read_sign_show_nat: "read_sign (show_nat n @ s) = (False, show_nat n @ s)"
proof -
  obtain c r where split: "show_nat n = c # r"
    using show_nat_nonempty [of n] by (cases "show_nat n") auto
  with show_nat_digits [of n] have "isdigit c" by simp
  then show ?thesis by (simp add: split read_sign_digit)
qed

lemma skipws_nonspace: "\<not> isspace c \<Longrightarrow> skipws (c # s) = c # s"
  by (simp add: skipws_def)

lemma skipws_space: "isspace c \<Longrightarrow> skipws (c # s) = skipws s"
  by (simp add: skipws_def)

lemma skipws_show_nat: "skipws (show_nat n @ s) = show_nat n @ s"
proof -
  obtain c r where split: "show_nat n = c # r"
    using show_nat_nonempty [of n] by (cases "show_nat n") auto
  with show_nat_digits [of n] have "isdigit c" by simp
  then have "\<not> isspace c" by (simp add: digit_is_no_sign)
  then show ?thesis by (simp add: split skipws_nonspace)
qed

subsection \<open>Integers\<close>

lemma extract_int_show_int:
  assumes "- (2 ^ 31) \<le> i" and "i < 2 ^ 31" and "\<not> isdigit c"
  shows "extract_int (show_int i @ c # rest) = Some (i, c # rest)"
proof (cases "i < 0")
  case True
  have "skipws (show_int i @ c # rest) = CHR ''-'' # show_nat (nat (- i)) @ c # rest"
    using True by (simp add: show_int_def skipws_nonspace isspace_def)
  moreover have "read_sign (CHR ''-'' # show_nat (nat (- i)) @ c # rest)
                   = (True, show_nat (nat (- i)) @ c # rest)"
    by (simp add: read_sign_def)
  moreover have "read_digits (show_nat (nat (- i)) @ c # rest) = Some (nat (- i), c # rest)"
    using assms(3) by (rule read_digits_show_nat)
  ultimately show ?thesis
    using True assms(1) by (simp add: extract_int_def)
next
  case False
  have "skipws (show_int i @ c # rest) = show_nat (nat i) @ c # rest"
    using False by (simp add: show_int_def skipws_show_nat)
  moreover have "read_sign (show_nat (nat i) @ c # rest) = (False, show_nat (nat i) @ c # rest)"
    by (rule read_sign_show_nat)
  moreover have "read_digits (show_nat (nat i) @ c # rest) = Some (nat i, c # rest)"
    using assms(3) by (rule read_digits_show_nat)
  ultimately show ?thesis
    using False assms(2) by (simp add: extract_int_def)
qed

lemma extract_size_t_show_size_t:
  assumes "\<not> isdigit c"
  shows "extract_size_t (CHR '' '' # show_size_t w @ c # rest) = Some (w, c # rest)"
proof -
  have "skipws (CHR '' '' # show_size_t w @ c # rest) = show_nat (unat w) @ c # rest"
    by (simp add: show_size_t_def skipws_space skipws_show_nat isspace_def)
  moreover have "read_sign (show_nat (unat w) @ c # rest) = (False, show_nat (unat w) @ c # rest)"
    by (rule read_sign_show_nat)
  moreover have "read_digits (show_nat (unat w) @ c # rest) = Some (unat w, c # rest)"
    using assms by (rule read_digits_show_nat)
  moreover have "unat w < 2 ^ 64"
    using unsigned_less [of w, where 'a = nat] by simp
  ultimately show ?thesis
    by (simp add: extract_size_t_def)
qed

subsection \<open>Quoted names\<close>

lemma read_quoted_escaped:
  "read_quoted (concat (map (\<lambda>c. if c = delim \<or> c = escape then [escape, c] else [c]) s)
                 @ delim # rest) = Some (s, rest)"
proof (induction s)
  case Nil
  show ?case by (simp add: delim_def escape_def)
next
  case (Cons c s)
  then show ?case by (simp add: delim_def escape_def)
qed

lemma extract_quoted_show_quoted:
  "extract_quoted (CHR '' '' # show_quoted s @ rest) = Some (s, rest)"
proof -
  have "skipws (CHR '' '' # show_quoted s @ rest) = show_quoted s @ rest"
    by (simp add: show_quoted_def skipws_space skipws_nonspace isspace_def delim_def)
  then show ?thesis
    using read_quoted_escaped [of s rest]
    by (simp add: extract_quoted_def show_quoted_def)
qed

subsection \<open>Six significant digits\<close>

lemma scale10_powi: "scale10 x k = x * 10 powi k"
proof (cases "0 \<le> k")
  case True
  then show ?thesis by (simp add: scale10_def power_int_def)
next
  case False
  then have "(10::real) powi k = inverse (10 ^ nat (- k))"
    by (simp add: power_int_def power_one_over inverse_eq_divide)
  with False show ?thesis by (simp add: scale10_def divide_inverse)
qed

lemma dec_exp_up_bounds:
  "1 \<le> x \<Longrightarrow> 10 powi dec_exp_up x \<le> x \<and> x < 10 powi (dec_exp_up x + 1)"
proof (induction x rule: dec_exp_up.induct)
  case (1 x)
  show ?case
  proof (cases "10 \<le> x")
    case False
    with "1.prems" show ?thesis by (simp add: dec_exp_up.simps [of x])
  next
    case True
    then have "1 \<le> x / 10" by simp
    with "1.IH" True
    have IH: "10 powi dec_exp_up (x / 10) \<le> x / 10"
      "x / 10 < 10 powi (dec_exp_up (x / 10) + 1)"
      by simp_all
    have e: "dec_exp_up x = dec_exp_up (x / 10) + 1"
      using True by (simp add: dec_exp_up.simps [of x])
    have step: "(10::real) powi (k + 1) = 10 powi k * 10" for k
      by (simp add: power_int_add)
    from IH show ?thesis
      unfolding e step [of "dec_exp_up (x / 10)"] step [of "dec_exp_up (x / 10) + 1"]
      by (simp add: field_simps)
  qed
qed

lemma dec_exp_down_bounds:
  "0 < x \<Longrightarrow> x < 1 \<Longrightarrow> 10 powi dec_exp_down x \<le> x \<and> x < 10 powi (dec_exp_down x + 1)"
proof (induction x rule: dec_exp_down.induct)
  case (1 x)
  have e: "dec_exp_down x = dec_exp_down (x * 10) - 1"
    using "1.prems" by (simp add: dec_exp_down.simps [of x])
  have step: "(10::real) powi (k - 1) = 10 powi k / 10" for k
    by (simp add: power_int_diff)
  show ?case
  proof (cases "x * 10 < 1")
    case False
    then have "dec_exp_down (x * 10) = 0"
      by (simp add: dec_exp_down.simps [of "x * 10"])
    with False "1.prems" show ?thesis
      unfolding e by (simp add: field_simps)
  next
    case True
    with "1.IH" "1.prems"
    have IH: "10 powi dec_exp_down (x * 10) \<le> x * 10"
      "x * 10 < 10 powi (dec_exp_down (x * 10) + 1)"
      by simp_all
    have "10 powi (dec_exp_down (x * 10) - 1) \<le> x"
      using IH(1) unfolding step by (simp add: field_simps)
    moreover have "x < 10 powi dec_exp_down (x * 10)"
      using IH(2) by (simp add: power_int_add field_simps)
    ultimately show ?thesis unfolding e by simp
  qed
qed

lemma dec_exponent_bounds:
  "0 < a \<Longrightarrow> 10 powi dec_exponent a \<le> a \<and> a < 10 powi (dec_exponent a + 1)"
  by (cases "1 \<le> a") (simp_all add: dec_exponent_def dec_exp_up_bounds dec_exp_down_bounds)

lemma round_half_even_bounds: "\<lfloor>r\<rfloor> \<le> round_half_even r \<and> round_half_even r \<le> \<lfloor>r\<rfloor> + 1"
  by (simp add: round_half_even_def Let_def)

lemma scaled_bounds:
  assumes "0 < a"
  shows "100000 \<le> scale10 a (5 - dec_exponent a) \<and> scale10 a (5 - dec_exponent a) < 1000000"
proof -
  let ?e = "dec_exponent a"
  have pos: "(0::real) < 10 powi (5 - ?e)" by (simp add: power_int_def)
  have low: "10 powi ?e \<le> a" and high: "a < 10 powi (?e + 1)"
    using dec_exponent_bounds [OF assms] by simp_all
  have "10 powi ?e * 10 powi (5 - ?e) \<le> a * 10 powi (5 - ?e)"
    using low pos by (simp add: mult_right_mono)
  moreover have "(10::real) powi ?e * 10 powi (5 - ?e) = 100000"
    by (simp flip: power_int_add)
  moreover have "a * 10 powi (5 - ?e) < 10 powi (?e + 1) * 10 powi (5 - ?e)"
    using high pos by (simp add: mult_strict_right_mono)
  moreover have "(10::real) powi (?e + 1) * 10 powi (5 - ?e) = 1000000"
    by (simp flip: power_int_add)
  ultimately show ?thesis by (simp add: scale10_powi)
qed

lemma sig6_bounds:
  assumes "0 < a" and "sig6 a = (m, X)"
  shows "100000 \<le> m \<and> m \<le> 999999"
proof -
  let ?r = "scale10 a (5 - dec_exponent a)"
  have r: "100000 \<le> ?r" "?r < 1000000"
    using scaled_bounds [OF assms(1)] by simp_all
  have "100000 \<le> \<lfloor>?r\<rfloor>" using r(1) by linarith
  moreover have "\<lfloor>?r\<rfloor> \<le> 999999" using r(2) by linarith
  ultimately have "100000 \<le> round_half_even ?r" "round_half_even ?r \<le> 1000000"
    using round_half_even_bounds [of ?r] by linarith+
  with assms(2) show ?thesis
    by (auto simp: sig6_def Let_def split: if_splits)
qed

lemma length_show_nat:
  "10 ^ k \<le> n \<Longrightarrow> n < 10 ^ Suc k \<Longrightarrow> length (show_nat n) = Suc k"
proof (induction k arbitrary: n)
  case 0
  then show ?case by (simp add: show_nat.simps [of n])
next
  case (Suc k)
  have "(1::nat) \<le> 10 ^ k" by simp
  moreover have "10 * 10 ^ k \<le> n" using Suc.prems(1) by simp
  ultimately have big: "\<not> n < 10" by linarith
  have "10 ^ k \<le> n div 10" using Suc.prems(1) by (simp add: less_eq_div_iff_mult_less_eq)
  moreover have "n div 10 < 10 ^ Suc k" using Suc.prems(2) by (simp add: div_less_iff_less_mult)
  ultimately have "length (show_nat (n div 10)) = Suc k" by (rule Suc.IH)
  with big show ?case by (simp add: show_nat.simps [of n])
qed

lemma hd_show_nat: "0 < n \<Longrightarrow> hd (show_nat n) \<noteq> CHR ''0''"
proof (induction n rule: show_nat.induct)
  case (1 n)
  show ?case
  proof (cases "n < 10")
    case True
    with "1.prems" have "n \<in> {1, 2, 3, 4, 5, 6, 7, 8, 9}" by auto
    then show ?thesis by (auto simp: show_nat.simps [of n] digit_char_def)
  next
    case False
    then have "0 < n div 10" by (simp add: div_greater_zero_iff)
    with "1.IH" False have "hd (show_nat (n div 10)) \<noteq> CHR ''0''" by simp
    with False show ?thesis
      by (simp add: show_nat.simps [of n] show_nat_nonempty)
  qed
qed

subsection \<open>Trailing zeros\<close>

lemma digit_val_zero: "digit_val (CHR ''0'') = 0"
  by (simp add: digit_val_def)

lemma digits_val_zeros: "digits_val (replicate k (CHR ''0'')) = 0"
  by (induction k) (simp_all add: digits_val_Nil digits_val_snoc digit_val_zero
      flip: replicate_append_same)

lemma digits_val_zero_Cons: "digits_val (CHR ''0'' # ds) = digits_val ds"
proof -
  have "digits_val [CHR ''0''] = 0" by (simp add: digits_val_def digit_val_zero)
  with digits_val_append [of "[CHR ''0'']" ds] show ?thesis by simp
qed

lemma isdigit_zero: "isdigit (CHR ''0'')"
  by (simp add: isdigit_def)

lemma strip_zeros_decomp:
  "ds = strip_zeros ds @ replicate (length ds - length (strip_zeros ds)) (CHR ''0'')"
proof -
  let ?P = "\<lambda>c. c = CHR ''0''"
  have zeros: "takeWhile ?P xs = replicate (length (takeWhile ?P xs)) (CHR ''0'')" for xs
    by (induction xs) simp_all
  have "rev ds = takeWhile ?P (rev ds) @ dropWhile ?P (rev ds)" by simp
  then have "ds = rev (dropWhile ?P (rev ds)) @ rev (takeWhile ?P (rev ds))"
    by (metis rev_append rev_rev_ident)
  moreover have "rev (takeWhile ?P (rev ds))
                   = replicate (length (takeWhile ?P (rev ds))) (CHR ''0'')"
    using zeros [of "rev ds"] by (metis rev_replicate)
  moreover have "length (takeWhile ?P (rev ds)) = length ds - length (strip_zeros ds)"
  proof -
    have "length (takeWhile ?P (rev ds)) + length (dropWhile ?P (rev ds)) = length (rev ds)"
      by (metis length_append takeWhile_dropWhile_id)
    then show ?thesis by (simp add: strip_zeros_def)
  qed
  ultimately show ?thesis by (simp add: strip_zeros_def)
qed

lemma strip_zeros_digits: "list_all isdigit ds \<Longrightarrow> list_all isdigit (strip_zeros ds)"
  by (auto simp: strip_zeros_def list_all_iff dest: set_dropWhileD)

lemma length_strip_zeros: "length (strip_zeros ds) \<le> length ds"
  using length_dropWhile_le [of "\<lambda>c. c = CHR ''0''" "rev ds"]
  by (simp add: strip_zeros_def)

lemma strip_zeros_nonempty: "ds \<noteq> [] \<Longrightarrow> hd ds \<noteq> CHR ''0'' \<Longrightarrow> strip_zeros ds \<noteq> []"
proof -
  assume "ds \<noteq> []" and "hd ds \<noteq> CHR ''0''"
  then have "hd ds \<in> set (rev ds)" and "\<not> (hd ds = CHR ''0'')" by simp_all
  then have "dropWhile (\<lambda>c. c = CHR ''0'') (rev ds) \<noteq> []"
    by (metis (mono_tags, lifting) dropWhile_eq_Nil_conv)
  then show ?thesis by (simp add: strip_zeros_def)
qed

lemma strip_zeros_append:
  "strip_zeros ys \<noteq> [] \<Longrightarrow> strip_zeros (xs @ ys) = xs @ strip_zeros ys"
proof -
  let ?P = "\<lambda>c. c = CHR ''0''"
  assume "strip_zeros ys \<noteq> []"
  then have "dropWhile ?P (rev ys) \<noteq> []" by (simp add: strip_zeros_def)
  then obtain y where "y \<in> set (rev ys)" and "\<not> ?P y"
    by (metis (mono_tags, lifting) dropWhile_eq_Nil_conv)
  then have "dropWhile ?P (rev ys @ rev xs) = dropWhile ?P (rev ys) @ rev xs"
    by (rule dropWhile_append1)
  then show ?thesis by (simp add: strip_zeros_def)
qed

text \<open>Dropping trailing zeros of the fraction does not change the number.\<close>

lemma mantissa_value:
  "real (digits_val (ip @ strip_zeros f)) / 10 ^ length (strip_zeros f)
     = real (digits_val (ip @ f)) / 10 ^ length f"
proof -
  define k where "k = length f - length (strip_zeros f)"
  have f: "f = strip_zeros f @ replicate k (CHR ''0'')"
    unfolding k_def by (rule strip_zeros_decomp)
  have len: "length f = length (strip_zeros f) + k"
    unfolding k_def using length_strip_zeros [of f] by simp
  have "digits_val (ip @ f) = digits_val ((ip @ strip_zeros f) @ replicate k (CHR ''0''))"
    using f by simp
  also have "\<dots> = digits_val (ip @ strip_zeros f) * 10 ^ k"
    by (simp only: digits_val_append digits_val_zeros length_replicate add_0_right)
  finally have "real (digits_val (ip @ f)) = real (digits_val (ip @ strip_zeros f)) * 10 ^ k"
    by simp
  then show ?thesis by (simp add: len power_add)
qed

subsection \<open>Numbers with a fraction and an exponent\<close>

lemma read_point_fraction:
  assumes "list_all isdigit f" and "\<not> isdigit c" and "c \<noteq> CHR ''.''"
  shows "read_point (fraction f @ c # rest) = (strip_zeros f, c # rest)"
proof (cases "strip_zeros f = []")
  case True
  with assms(3) show ?thesis by (simp add: fraction_def read_point_def)
next
  case False
  have "list_all isdigit (strip_zeros f)" using assms(1) by (rule strip_zeros_digits)
  with assms(2) False show ?thesis
    by (simp add: fraction_def read_point_def takeWhile_digits dropWhile_digits)
qed

lemma fraction_starts: "fraction f = [] \<or> (\<exists>t. fraction f = CHR ''.'' # t)"
  by (simp add: fraction_def Let_def)

lemma read_decimal_parts:
  assumes "read_sign (skipws s) = (neg, s1)"
    and "takeWhile isdigit s1 = ip"
    and "read_point (dropWhile isdigit s1) = (fp, s2)"
    and "ip \<noteq> []"
    and "read_exponent s2 = Some (ex, rest)"
  shows "read_decimal s =
           Some (neg, scale10 (real (digits_val (ip @ fp)) / 10 ^ length fp) ex, rest)"
  using assms by (simp add: read_decimal_def Let_def)

lemma number_body:
  assumes ip: "list_all isdigit ip" "ip \<noteq> []"
    and f: "list_all isdigit f"
    and et: "et = [] \<or> (\<exists>t. et = CHR ''e'' # t)"
  shows "takeWhile isdigit (ip @ fraction f @ et @ CHR '' '' # rest) = ip"
    and "read_point (dropWhile isdigit (ip @ fraction f @ et @ CHR '' '' # rest))
           = (strip_zeros f, et @ CHR '' '' # rest)"
proof -
  obtain c r where after: "et @ CHR '' '' # rest = c # r"
    and c: "\<not> isdigit c" "c \<noteq> CHR ''.''"
    using et by (auto simp: isdigit_def)
  obtain c' r' where tail: "fraction f @ et @ CHR '' '' # rest = c' # r'" and c': "\<not> isdigit c'"
    using fraction_starts [of f] after c(1) by (auto simp: isdigit_def)
  show "takeWhile isdigit (ip @ fraction f @ et @ CHR '' '' # rest) = ip"
    unfolding tail using ip(1) c' by (rule takeWhile_digits)
  have "dropWhile isdigit (ip @ fraction f @ et @ CHR '' '' # rest)
          = fraction f @ et @ CHR '' '' # rest"
    unfolding tail using ip(1) c' by (rule dropWhile_digits)
  then show "read_point (dropWhile isdigit (ip @ fraction f @ et @ CHR '' '' # rest))
           = (strip_zeros f, et @ CHR '' '' # rest)"
    unfolding after using read_point_fraction [OF f c] by simp
qed

lemma read_decimal_number:
  assumes ip: "list_all isdigit ip" "ip \<noteq> []"
    and f: "list_all isdigit f"
    and et: "et = [] \<or> (\<exists>t. et = CHR ''e'' # t)"
    and ex: "read_exponent (et @ CHR '' '' # rest) = Some (ex, CHR '' '' # rest)"
  shows "read_decimal (CHR '' '' # ip @ fraction f @ et @ CHR '' '' # rest)
           = Some (False, scale10 (real (digits_val (ip @ f)) / 10 ^ length f) ex,
                   CHR '' '' # rest)"
    and "read_decimal (CHR '' '' # CHR ''-'' # ip @ fraction f @ et @ CHR '' '' # rest)
           = Some (True, scale10 (real (digits_val (ip @ f)) / 10 ^ length f) ex,
                   CHR '' '' # rest)"
proof -
  let ?body = "ip @ fraction f @ et @ CHR '' '' # rest"
  obtain d ds where split: "ip = d # ds" using ip(2) by (cases ip) auto
  with ip(1) have d: "isdigit d" by simp
  have plus: "read_sign (skipws (CHR '' '' # ?body)) = (False, ?body)"
    using d digit_is_no_sign [of d]
    by (simp add: split skipws_space skipws_nonspace read_sign_digit isspace_def)
  have minus: "read_sign (skipws (CHR '' '' # CHR ''-'' # ?body)) = (True, ?body)"
    by (simp add: skipws_space skipws_nonspace read_sign_def isspace_def)
  note body = number_body [OF ip f et, of rest]
  show "read_decimal (CHR '' '' # ?body)
           = Some (False, scale10 (real (digits_val (ip @ f)) / 10 ^ length f) ex,
                   CHR '' '' # rest)"
    using read_decimal_parts [OF plus body(1) body(2) ip(2) ex]
    by (simp add: mantissa_value)
  show "read_decimal (CHR '' '' # CHR ''-'' # ?body)
           = Some (True, scale10 (real (digits_val (ip @ f)) / 10 ^ length f) ex,
                   CHR '' '' # rest)"
    using read_decimal_parts [OF minus body(1) body(2) ip(2) ex]
    by (simp add: mantissa_value)
qed

lemma read_exponent_none: "read_exponent (CHR '' '' # rest) = Some (0, CHR '' '' # rest)"
  by (simp add: read_exponent_def)

lemma read_exponent_show_exponent:
  "read_exponent (show_exponent X @ CHR '' '' # rest) = Some (X, CHR '' '' # rest)"
proof -
  define pad where
    "pad = (let ds = show_nat (nat \<bar>X\<bar>) in if length ds < 2 then CHR ''0'' # ds else ds)"
  have digits: "list_all isdigit pad" and nonempty: "pad \<noteq> []"
    and val: "digits_val pad = nat \<bar>X\<bar>"
    using show_nat_digits [of "nat \<bar>X\<bar>"] show_nat_nonempty [of "nat \<bar>X\<bar>"]
    by (simp_all add: pad_def Let_def isdigit_zero digits_val_show_nat digits_val_zero_Cons)
  have space: "\<not> isdigit (CHR '' '')" by (simp add: isdigit_def)
  have digits_read: "read_digits (pad @ CHR '' '' # rest) = Some (nat \<bar>X\<bar>, CHR '' '' # rest)"
    using read_digits_digits [OF digits nonempty space] val by simp
  have shape: "show_exponent X @ CHR '' '' # rest
                = CHR ''e'' # (if X < 0 then CHR ''-'' else CHR ''+'') # pad @ CHR '' '' # rest"
    by (simp add: show_exponent_def pad_def)
  show ?thesis
    unfolding shape using digits_read
    by (simp add: read_exponent_def read_sign_def)
qed

subsection \<open>A balance\<close>

lemma scale10_shift: "scale10 (x / 10 ^ n) k = scale10 x (k - int n)"
proof -
  have "(10::real) powi (k - int n) = 10 powi k / 10 powi int n"
    by (rule power_int_diff) simp
  then show ?thesis by (simp add: scale10_powi)
qed

lemma scale10_zero: "scale10 x 0 = x"
  by (simp add: scale10_def)

lemma show_g6_shape:
  assumes "0 < a"
  shows "\<exists>ip f et ex.
           show_g6 a = ip @ fraction f @ et \<and> list_all isdigit ip \<and> ip \<noteq> [] \<and>
           list_all isdigit f \<and> (et = [] \<or> (\<exists>t. et = CHR ''e'' # t)) \<and>
           (\<forall>rest. read_exponent (et @ CHR '' '' # rest) = Some (ex, CHR '' '' # rest)) \<and>
           scale10 (real (digits_val (ip @ f)) / 10 ^ length f) ex = value6 a"
proof -
  obtain m X where sig: "sig6 a = (m, X)" by force
  have m: "100000 \<le> m" "m \<le> 999999"
    using sig6_bounds [OF assms sig] by simp_all
  define ds where "ds = show_nat (nat m)"
  have digits: "list_all isdigit ds" by (simp add: ds_def show_nat_digits)
  have len: "length ds = 6"
    using m length_show_nat [of 5 "nat m"] by (simp add: ds_def)
  have val: "real (digits_val ds) = real_of_int m"
    using m by (simp add: ds_def digits_val_show_nat)
  have lead: "hd ds \<noteq> CHR ''0''"
    using m hd_show_nat [of "nat m"] by (simp add: ds_def)
  have nonempty: "ds \<noteq> []" using len by auto
  have target: "value6 a = scale10 (real_of_int m) (X - 5)"
    by (simp add: value6_def sig)
  have part: "list_all isdigit (take n ds)" "list_all isdigit (drop n ds)" for n
    using digits by (auto simp: list_all_iff dest: in_set_takeD in_set_dropD)
  consider (scientific) "X < - 4 \<or> 6 \<le> X" | (fixed) "0 \<le> X" "X \<le> 5" | (small) "- 4 \<le> X" "X < 0"
    by linarith
  then show ?thesis
  proof cases
    case scientific
    have shape: "show_g6 a = take 1 ds @ fraction (drop 1 ds) @ show_exponent X"
      using scientific by (auto simp: show_g6_def sig ds_def Let_def)
    have "scale10 (real (digits_val (take 1 ds @ drop 1 ds)) / 10 ^ length (drop 1 ds)) X
            = scale10 (real (digits_val (take 1 ds @ drop 1 ds))) (X - int (length (drop 1 ds)))"
      by (rule scale10_shift)
    then have "scale10 (real (digits_val (take 1 ds @ drop 1 ds)) / 10 ^ length (drop 1 ds)) X
            = value6 a"
      using len by (simp only: append_take_drop_id val target length_drop) simp
    moreover have "take 1 ds \<noteq> []" using nonempty by simp
    moreover have "show_exponent X = [] \<or> (\<exists>t. show_exponent X = CHR ''e'' # t)"
      by (simp add: show_exponent_def)
    ultimately show ?thesis
      using shape part read_exponent_show_exponent [of X] by blast
  next
    case fixed
    define n where "n = nat X + 1"
    have shape: "show_g6 a = take n ds @ fraction (drop n ds) @ []"
      using fixed by (auto simp: show_g6_def sig ds_def n_def Let_def)
    have digits_after: "0 - int (length (drop n ds)) = X - 5"
      using fixed len by (simp add: n_def)
    have "scale10 (real (digits_val (take n ds @ drop n ds)) / 10 ^ length (drop n ds)) 0
            = scale10 (real (digits_val (take n ds @ drop n ds))) (0 - int (length (drop n ds)))"
      by (rule scale10_shift)
    then have "scale10 (real (digits_val (take n ds @ drop n ds)) / 10 ^ length (drop n ds)) 0
            = value6 a"
      by (simp only: digits_after append_take_drop_id val target)
    moreover have "take n ds \<noteq> []" using nonempty by (simp add: n_def)
    ultimately show ?thesis
      using shape part read_exponent_none by (metis append_Nil)
  next
    case small
    define k where "k = nat (- X - 1)"
    define f where "f = replicate k (CHR ''0'') @ ds"
    have kept: "strip_zeros ds \<noteq> []"
      using nonempty lead by (rule strip_zeros_nonempty)
    have "fraction f = CHR ''.'' # replicate k (CHR ''0'') @ strip_zeros ds"
      using kept by (simp add: fraction_def f_def strip_zeros_append)
    then have shape: "show_g6 a = ''0'' @ fraction f @ []"
      using small by (auto simp: show_g6_def sig ds_def k_def Let_def)
    have f_digits: "list_all isdigit f"
      using digits by (auto simp: f_def list_all_iff isdigit_zero)
    have "digits_val (''0'' @ f) = digits_val ((CHR ''0'' # replicate k (CHR ''0'')) @ ds)"
      by (simp add: f_def)
    also have "\<dots> = digits_val (replicate (Suc k) (CHR ''0'')) * 10 ^ length ds + digits_val ds"
      by (simp only: digits_val_append replicate_Suc)
    also have "\<dots> = digits_val ds"
      by (simp only: digits_val_zeros mult_zero_left add_0)
    finally have whole: "real (digits_val (''0'' @ f)) = real_of_int m"
      using val by simp
    have digits_after: "0 - int (length f) = X - 5"
      using small len by (simp add: f_def k_def)
    have "scale10 (real (digits_val (''0'' @ f)) / 10 ^ length f) 0
            = scale10 (real (digits_val (''0'' @ f))) (0 - int (length f))"
      by (rule scale10_shift)
    then have "scale10 (real (digits_val (''0'' @ f)) / 10 ^ length f) 0 = value6 a"
      by (simp only: digits_after whole target)
    moreover have "list_all isdigit ''0''" by (simp add: isdigit_zero)
    moreover have "''0'' \<noteq> []" by simp
    ultimately show ?thesis
      using shape f_digits read_exponent_none by (metis append_Nil)
  qed
qed

lemma read_decimal_show_g6:
  assumes "0 < a"
  shows "read_decimal (CHR '' '' # show_g6 a @ CHR '' '' # rest)
           = Some (False, value6 a, CHR '' '' # rest)"
    and "read_decimal (CHR '' '' # CHR ''-'' # show_g6 a @ CHR '' '' # rest)
           = Some (True, value6 a, CHR '' '' # rest)"
proof -
  from show_g6_shape [OF assms] obtain ip f et ex where
    shape: "show_g6 a = ip @ fraction f @ et"
    and ip: "list_all isdigit ip" "ip \<noteq> []" and f: "list_all isdigit f"
    and et: "et = [] \<or> (\<exists>t. et = CHR ''e'' # t)"
    and ex: "read_exponent (et @ CHR '' '' # rest) = Some (ex, CHR '' '' # rest)"
    and v: "scale10 (real (digits_val (ip @ f)) / 10 ^ length f) ex = value6 a"
    by blast
  from read_decimal_number [OF ip f et ex]
  show "read_decimal (CHR '' '' # show_g6 a @ CHR '' '' # rest)
           = Some (False, value6 a, CHR '' '' # rest)"
    and "read_decimal (CHR '' '' # CHR ''-'' # show_g6 a @ CHR '' '' # rest)
           = Some (True, value6 a, CHR '' '' # rest)"
    by (simp_all add: shape v)
qed

lemma extract_double_show_double:
  "extract_double (CHR '' '' # show_double d @ CHR '' '' # rest)
     = (case reload_balance d of None \<Rightarrow> None | Some b \<Rightarrow> Some (b, CHR '' '' # rest))"
proof (cases d)
  case (Finite x)
  consider (zero) "x = 0" | (positive) "0 < x" | (negative) "x < 0" by linarith
  then show ?thesis
  proof cases
    case zero
    have "read_decimal (CHR '' '' # ''0'' @ fraction [] @ [] @ CHR '' '' # rest)
            = Some (False, scale10 (real (digits_val (''0'' @ [])) / 10 ^ length ([] :: string)) 0,
                    CHR '' '' # rest)"
      by (rule read_decimal_number(1))
         (simp_all add: isdigit_zero read_exponent_none)
    then have "read_decimal (CHR '' '' # ''0'' @ CHR '' '' # rest)
                 = Some (False, 0, CHR '' '' # rest)"
      by (simp add: fraction_def strip_zeros_def scale10_zero digits_val_zero_Cons digits_val_Nil)
    with Finite zero show ?thesis
      by (simp add: extract_double_def show_double_def reload_balance_def nearest_double_def)
  next
    case positive
    from read_decimal_show_g6(1) [OF positive, of rest] Finite positive show ?thesis
      by (simp add: extract_double_def show_double_def reload_balance_def
               split: double.splits)
  next
    case negative
    then have "0 < - x" by simp
    from read_decimal_show_g6(2) [OF this, of rest] Finite negative show ?thesis
      by (simp add: extract_double_def show_double_def reload_balance_def abs_if
               split: double.splits)
  qed
next
  case NegZero
  have "read_decimal (CHR '' '' # CHR ''-'' # ''0'' @ fraction [] @ [] @ CHR '' '' # rest)
          = Some (True, scale10 (real (digits_val (''0'' @ [])) / 10 ^ length ([] :: string)) 0,
                  CHR '' '' # rest)"
    by (rule read_decimal_number(2))
       (simp_all add: isdigit_zero read_exponent_none)
  then have "read_decimal (CHR '' '' # ''-0'' @ CHR '' '' # rest)
               = Some (True, 0, CHR '' '' # rest)"
    by (simp add: fraction_def strip_zeros_def scale10_zero digits_val_zero_Cons digits_val_Nil)
  with NegZero show ?thesis
    by (simp add: extract_double_def show_double_def reload_balance_def nearest_double_def)
next
  case (Infinity s)
  then show ?thesis
    by (simp add: show_double_def reload_balance_def read_simps)
next
  case (NaN s)
  then show ?thesis
    by (simp add: show_double_def reload_balance_def read_simps)
qed

subsection \<open>A line and a file\<close>

lemma load_save:
  assumes "- (2 ^ 31) \<le> accountNum acc" and "accountNum acc < 2 ^ 31"
  shows "load (save acc @ rest)
           = (case reload_balance (balance acc) of
                None \<Rightarrow> None
              | Some b \<Rightarrow> Some (acc\<lparr>balance := b\<rparr>, CHR 0x0A # rest))"
proof -
  have space: "\<not> isdigit (CHR '' '')" by (simp add: isdigit_def)
  define r3 where "r3 = CHR '' '' # show_quoted (name acc) @ CHR 0x0A # rest"
  define r2 where "r2 = CHR '' '' # show_size_t (pinHash acc) @ r3"
  define r1 where "r1 = CHR '' '' # show_double (balance acc) @ r2"
  have line: "save acc @ rest = show_int (accountNum acc) @ r1"
    by (simp add: save_def r1_def r2_def r3_def)
  have number: "extract_int (show_int (accountNum acc) @ r1) = Some (accountNum acc, r1)"
    unfolding r1_def using assms space by (rule extract_int_show_int)
  have amount: "extract_double r1 =
      (case reload_balance (balance acc) of None \<Rightarrow> None | Some b \<Rightarrow> Some (b, r2))"
    unfolding r1_def r2_def by (rule extract_double_show_double)
  have hash: "extract_size_t r2 = Some (pinHash acc, r3)"
    unfolding r2_def r3_def using space by (rule extract_size_t_show_size_t)
  have quoted: "extract_quoted r3 = Some (name acc, CHR 0x0A # rest)"
    unfolding r3_def by (rule extract_quoted_show_quoted)
  show ?thesis
    by (simp add: line load_def number amount hash quoted split: option.splits)
qed

lemma loadAll_Nil: "loadAll [] = []"
  by (simp add: loadAll.simps [of "[]"] load_def extract_int_def skipws_def read_sign_def
        read_digits_def)

lemma loadAll_newline: "loadAll (CHR 0x0A # s) = loadAll s"
proof -
  have "extract_int (CHR 0x0A # s) = extract_int s"
    by (simp add: extract_int_def skipws_space isspace_def)
  then have "load (CHR 0x0A # s) = load s" by (simp add: load_def)
  then show ?thesis by (simp add: loadAll.simps [of "CHR 0x0A # s"] loadAll.simps [of s])
qed

lemma loadAll_saved:
  assumes "\<forall>acc \<in> set accounts. - (2 ^ 31) \<le> accountNum acc \<and> accountNum acc < 2 ^ 31"
  shows "loadAll (concat (map save accounts)) = reloaded accounts"
  using assms
proof (induction accounts)
  case Nil
  show ?case by (simp add: loadAll_Nil)
next
  case (Cons acc accounts)
  then have line: "load (save acc @ concat (map save accounts))
               = (case reload_balance (balance acc) of
                    None \<Rightarrow> None
                  | Some b \<Rightarrow> Some (acc\<lparr>balance := b\<rparr>, CHR 0x0A # concat (map save accounts)))"
    by (simp add: load_save)
  show ?case
  proof (cases "reload_balance (balance acc)")
    case None
    with line show ?thesis
      by (simp add: loadAll.simps [of "save acc @ concat (map save accounts)"])
  next
    case (Some b)
    with line have "loadAll (save acc @ concat (map save accounts))
               = acc\<lparr>balance := b\<rparr> # loadAll (concat (map save accounts))"
      by (simp add: loadAll.simps [of "save acc @ concat (map save accounts)"] loadAll_newline)
    with Cons Some show ?thesis by simp
  qed
qed

subsection \<open>A ledger\<close>

lemma saveToFile_then_loadFromFile:
  assumes "numbers_fit_int accounts"
  shows "loadFromFile (snd (saveToFile True files filename accounts)) filename others
           = reloaded accounts"
proof -
  have "\<forall>acc \<in> set accounts. - (2 ^ 31) \<le> accountNum acc \<and> accountNum acc < 2 ^ 31"
    using assms by (simp add: numbers_fit_int_def list_all_iff)
  then show ?thesis
    by (simp add: saveToFile_def loadFromFile_def loadAll_saved)
qed

lemma reloaded_numbers: "set (map accountNum (reloaded accounts)) \<subseteq> set (map accountNum accounts)"
  by (induction accounts) (auto split: option.splits)

lemma reloaded_numbers_unique: "numbers_unique accounts \<Longrightarrow> numbers_unique (reloaded accounts)"
proof (induction accounts)
  case Nil
  show ?case by (simp add: numbers_unique_def)
next
  case (Cons acc accounts)
  then have "numbers_unique (reloaded accounts)" by (simp add: numbers_unique_def)
  moreover have "accountNum acc \<notin> set (map accountNum (reloaded accounts))"
    using Cons.prems reloaded_numbers [of accounts] by (auto simp: numbers_unique_def)
  ultimately show ?case by (simp add: numbers_unique_def split: option.splits)
qed

lemma reload_balance_nonneg:
  assumes "reload_balance d = Some b" and "dle (Finite 0) d"
  shows "dle (Finite 0) b"
proof (cases d)
  case (Finite x)
  with assms(2) have "0 \<le> x" by (simp add: dle_def)
  with assms(1) Finite show ?thesis
    using dle_zero_nearest_double [of "value6 \<bar>x\<bar>"]
    by (auto simp: reload_balance_def dle_def split: if_splits double.splits)
next
  case NegZero
  with assms(1) show ?thesis by (simp add: reload_balance_def dle_def)
next
  case (Infinity s)
  with assms(1) show ?thesis by (simp add: reload_balance_def)
next
  case (NaN s)
  with assms(1) show ?thesis by (simp add: reload_balance_def)
qed

lemma reloaded_balances_nonneg:
  "balances_nonneg accounts \<Longrightarrow> balances_nonneg (reloaded accounts)"
  by (induction accounts)
     (auto simp: balances_nonneg_def reload_balance_nonneg split: option.splits)

lemma reload_keeps_invariants:
  assumes "numbers_fit_int accounts"
  shows "numbers_unique accounts \<Longrightarrow>
           numbers_unique
             (loadFromFile (snd (saveToFile True files filename accounts)) filename others)"
    and "balances_nonneg accounts \<Longrightarrow>
           balances_nonneg
             (loadFromFile (snd (saveToFile True files filename accounts)) filename others)"
  by (simp_all add: saveToFile_then_loadFromFile [OF assms] reloaded_numbers_unique
        reloaded_balances_nonneg)

lemma reload_balance_examples:
  "reload_balance (Finite 100) = Some (Finite 100)"
  "reload_balance (Finite 50) = Some (Finite 50)"
  "reload_balance (Finite 1234567) = Some (Finite 1234570)"
  "reload_balance (Finite (- 10)) = Some (Finite (- 10))"
  "reload_balance (Infinity False) = None"
  by (simp_all add: reload_balance_def value6_def write_simps double_simps)

lemma sample_numbers_fit_int:
  "numbers_fit_int [alice, bob]" "numbers_fit_int [rich_alice]"
  by (simp_all add: numbers_fit_int_def alice_fields bob_fields rich_alice_def)

section \<open>The balance invariant\<close>

text \<open>
  Claim C2, as the code has it. On a ledger whose balances are all \<open>>= 0\<close>:
  \<^verbatim>\<open>updateName\<close>, \<^verbatim>\<open>closeAccount\<close>, \<^verbatim>\<open>sortAccountsByBalance\<close>, \<^verbatim>\<open>loadFromFile\<close> of a path that
  does not exist and \<^verbatim>\<open>loadFromFile\<close> of the file that \<^verbatim>\<open>saveToFile\<close> wrote from the ledger
  leave all balances \<open>>= 0\<close>, whatever their arguments and however they end; so does
  \<^verbatim>\<open>deposit\<close> of an amount that is not a NaN, so do \<^verbatim>\<open>withdraw\<close> and \<^verbatim>\<open>transfer\<close> of a
  finite amount, and so does \<^verbatim>\<open>addAccount\<close> when the balance it is given is \<open>>= 0\<close>. A
  withdrawal or a transfer of more than the source account holds does not succeed and
  leaves the ledger exactly as it was (nothing is clamped). \<^verbatim>\<open>addAccount\<close> checks no
  balance, \<^verbatim>\<open>deposit\<close> and \<^verbatim>\<open>withdraw\<close> let a NaN pass their comparisons, and
  \<^verbatim>\<open>loadFromFile\<close> of any other existing file checks no balance.
\<close>

theorem balances_stay_nonnegative:
  assumes "balances_nonneg accounts"
  shows "(dle (Finite 0) bal \<longrightarrow>
            balances_nonneg (snd (addAccount hashPIN accounts n ac bal pin)))
       \<and> (\<not> is_nan amount \<longrightarrow> balances_nonneg (snd (deposit hashPIN accounts k amount pin)))
       \<and> (is_finite amount \<longrightarrow> balances_nonneg (snd (withdraw hashPIN accounts k amount pin)))
       \<and> (is_finite amount \<longrightarrow>
            balances_nonneg (snd (transfer hashPIN accounts k k' amount pin)))
       \<and> balances_nonneg (snd (updateName hashPIN accounts k newName pin))
       \<and> balances_nonneg (snd (closeAccount hashPIN accounts k pin))
       \<and> (\<forall>accounts'. sortAccountsByBalance accounts accounts' \<longrightarrow> balances_nonneg accounts')
       \<and> (files filename = None \<longrightarrow> balances_nonneg (loadFromFile files filename accounts))
       \<and> (numbers_fit_int accounts \<longrightarrow>
            balances_nonneg
              (loadFromFile (snd (saveToFile True files filename accounts)) filename others))
       \<and> (\<forall>i. findAccount accounts k = Some i \<and> dless (balance (accounts ! i)) amount \<longrightarrow>
             snd (withdraw hashPIN accounts k amount pin) = accounts
             \<and> fst (withdraw hashPIN accounts k amount pin) \<noteq> Done
             \<and> snd (transfer hashPIN accounts k k' amount pin) = accounts
             \<and> fst (transfer hashPIN accounts k k' amount pin) \<noteq> Done)"
proof -
  have add: "dle (Finite 0) bal \<longrightarrow>
      balances_nonneg (snd (addAccount hashPIN accounts n ac bal pin))"
    using assms by (simp add: addAccount_keeps_balances_nonneg)
  have sort: "\<forall>accounts'. sortAccountsByBalance accounts accounts' \<longrightarrow> balances_nonneg accounts'"
    using assms by (auto simp: sortAccountsByBalance_def intro: permutation_keeps_invariants)
  have missing: "files filename = None \<longrightarrow> balances_nonneg (loadFromFile files filename accounts)"
    using assms by (simp add: loadFromFile_def)
  have reload: "numbers_fit_int accounts \<longrightarrow>
            balances_nonneg
              (loadFromFile (snd (saveToFile True files filename accounts)) filename others)"
    using assms by (simp add: reload_keeps_invariants(2))
  have rejected: "\<forall>i. findAccount accounts k = Some i \<and> dless (balance (accounts ! i)) amount \<longrightarrow>
             snd (withdraw hashPIN accounts k amount pin) = accounts
             \<and> fst (withdraw hashPIN accounts k amount pin) \<noteq> Done
             \<and> snd (transfer hashPIN accounts k k' amount pin) = accounts
             \<and> fst (transfer hashPIN accounts k k' amount pin) \<noteq> Done"
    using withdraw_overdraft_rejected [of accounts k _ amount hashPIN pin]
      transfer_overdraft_rejected [of accounts k _ amount hashPIN k' pin]
    by blast
  have dep: "\<not> is_nan amount \<longrightarrow> balances_nonneg (snd (deposit hashPIN accounts k amount pin))"
    using assms by (simp add: deposit_keeps_invariants(2))
  have wd: "is_finite amount \<longrightarrow> balances_nonneg (snd (withdraw hashPIN accounts k amount pin))"
    using assms by (simp add: withdraw_keeps_invariants(2))
  have tr: "is_finite amount \<longrightarrow>
      balances_nonneg (snd (transfer hashPIN accounts k k' amount pin))"
    using assms by (simp add: transfer_keeps_invariants(2))
  have upd: "balances_nonneg (snd (updateName hashPIN accounts k newName pin))"
    using assms by (rule updateName_keeps_invariants(2))
  have cl: "balances_nonneg (snd (closeAccount hashPIN accounts k pin))"
    using assms by (rule closeAccount_keeps_invariants(2))
  from add dep wd tr upd cl sort missing reload rejected show ?thesis
    by simp
qed

text \<open>
  On the example ledger: adding Carol with 50, a deposit of 5 and a withdrawal of 30
  for Alice, moving 30 from Alice to Bob, sorting, loading from a path that does not
  exist, and saving and loading again keep all balances \<open>>= 0\<close>; asking for 1000 from
  Bob's 50 is refused and leaves the ledger as it was.
\<close>

theorem balances_stay_nonnegative_witness:
  "balances_nonneg [alice, bob]
   \<and> dle (Finite 0) (Finite 50)
   \<and> balances_nonneg (snd (addAccount demo_hash [alice, bob] ''Carol'' 1003 (Finite 50) ''4321''))
   \<and> balances_nonneg (snd (deposit demo_hash [alice, bob] 1001 (Finite 5) ''1234''))
   \<and> balances_nonneg (snd (withdraw demo_hash [alice, bob] 1001 (Finite 30) ''1234''))
   \<and> balances_nonneg (snd (transfer demo_hash [alice, bob] 1001 1002 (Finite 30) ''1234''))
   \<and> sortAccountsByBalance [alice, bob] [bob, alice] \<and> balances_nonneg [bob, alice]
   \<and> balances_nonneg (loadFromFile Map.empty ''accounts_secure.txt'' [alice, bob])
   \<and> numbers_fit_int [alice, bob]
   \<and> balances_nonneg
       (loadFromFile (snd (saveToFile True Map.empty ''accounts_secure.txt'' [alice, bob]))
          ''accounts_secure.txt'' [])
   \<and> findAccount [alice, bob] 1002 = Some 1
   \<and> dless (balance ([alice, bob] ! 1)) (Finite 1000)
   \<and> snd (withdraw demo_hash [alice, bob] 1002 (Finite 1000) ''5678'') = [alice, bob]
   \<and> fst (withdraw demo_hash [alice, bob] 1002 (Finite 1000) ''5678'') \<noteq> Done"
proof -
  have inv: "balances_nonneg [alice, bob]"
    by (simp add: balances_nonneg_def alice_fields bob_fields dle_def)
  have sorted: "sortAccountsByBalance [alice, bob] [bob, alice]"
    by (simp add: sortAccountsByBalance_def alice_fields bob_fields dless_def)
  have found: "findAccount [alice, bob] 1002 = Some 1"
    by (simp add: alice_fields bob_fields)
  have less: "dless (balance ([alice, bob] ! 1)) (Finite 1000)"
    by (simp add: bob_fields dless_def)
  have fifty: "dle (Finite 0) (Finite 50)"
    by (simp add: dle_def)
  note keeps = balances_stay_nonnegative [OF inv, where hashPIN = demo_hash]
  have added: "balances_nonneg
      (snd (addAccount demo_hash [alice, bob] ''Carol'' 1003 (Finite 50) ''4321''))"
    using keeps [where bal = "Finite 50" and n = "''Carol''" and ac = 1003 and pin = "''4321''"]
      fifty
    by blast
  have paid: "balances_nonneg (snd (deposit demo_hash [alice, bob] 1001 (Finite 5) ''1234''))"
    using keeps [where k = 1001 and amount = "Finite 5" and pin = "''1234''"]
    by simp
  have taken: "balances_nonneg (snd (withdraw demo_hash [alice, bob] 1001 (Finite 30) ''1234''))"
    using keeps [where k = 1001 and amount = "Finite 30" and pin = "''1234''"]
    by simp
  have moved: "balances_nonneg
      (snd (transfer demo_hash [alice, bob] 1001 1002 (Finite 30) ''1234''))"
    using keeps [where k = 1001 and k' = 1002 and amount = "Finite 30" and pin = "''1234''"]
    by simp
  have reordered: "balances_nonneg [bob, alice]"
    using keeps sorted by blast
  have missing: "balances_nonneg (loadFromFile Map.empty ''accounts_secure.txt'' [alice, bob])"
    using keeps [where files = Map.empty and filename = "''accounts_secure.txt''"]
    by simp
  have fit: "numbers_fit_int [alice, bob]"
    by (rule sample_numbers_fit_int(1))
  have reloaded: "balances_nonneg
       (loadFromFile (snd (saveToFile True Map.empty ''accounts_secure.txt'' [alice, bob]))
          ''accounts_secure.txt'' [])"
    using keeps [where files = Map.empty and filename = "''accounts_secure.txt''"
        and others = "[]"] fit
    by blast
  have refused: "snd (withdraw demo_hash [alice, bob] 1002 (Finite 1000) ''5678'') = [alice, bob]
      \<and> fst (withdraw demo_hash [alice, bob] 1002 (Finite 1000) ''5678'') \<noteq> Done"
    using keeps [where k = 1002 and amount = "Finite 1000" and pin = "''5678''"] found less
    by blast
  from inv fifty added paid taken moved sorted reordered missing fit reloaded found less refused
  show ?thesis
    by simp
qed

lemma overdrawn_file_is_saved_text:
  "save \<lparr>name = ''x'', accountNum = 1, balance = Finite (- 10), pinHash = 1234\<rparr> = overdrawn_file"
  by (simp add: overdrawn_file_def write_simps)

text \<open>
  Where the claim as written fails. \<^verbatim>\<open>addAccount\<close> on the empty ledger with the balance
  \<open>-10\<close> succeeds and stores \<open>-10\<close>; \<^verbatim>\<open>saveToFile\<close> writes that ledger as a file whose one
  line carries the balance \<open>-10\<close>, and \<^verbatim>\<open>loadFromFile\<close> of that file loads it. And a
  deposit of a NaN for Alice, with her PIN, succeeds and leaves a NaN as her balance,
  of which \<open>>= 0\<close> is false.
\<close>

theorem negative_balance_counterexample:
  "balances_nonneg []
   \<and> addAccount demo_hash [] ''x'' 1 (Finite (- 10)) ''1234''
       = (Done, [\<lparr>name = ''x'', accountNum = 1, balance = Finite (- 10), pinHash = 1234\<rparr>])
   \<and> saveToFile True Map.empty ''accounts_secure.txt''
         [\<lparr>name = ''x'', accountNum = 1, balance = Finite (- 10), pinHash = 1234\<rparr>]
       = (Done, [''accounts_secure.txt'' \<mapsto> overdrawn_file])
   \<and> loadFromFile [''accounts_secure.txt'' \<mapsto> overdrawn_file] ''accounts_secure.txt'' []
       = [\<lparr>name = ''x'', accountNum = 1, balance = Finite (- 10), pinHash = 1234\<rparr>]
   \<and> \<not> balances_nonneg [\<lparr>name = ''x'', accountNum = 1, balance = Finite (- 10), pinHash = 1234\<rparr>]
   \<and> balances_nonneg [alice, bob]
   \<and> deposit demo_hash [alice, bob] 1001 (NaN False) ''1234''
       = (Done, [alice\<lparr>balance := NaN False\<rparr>, bob])
   \<and> \<not> balances_nonneg [alice\<lparr>balance := NaN False\<rparr>, bob]"
proof -
  have created: "balances_nonneg []
   \<and> addAccount demo_hash [] ''x'' 1 (Finite (- 10)) ''1234''
       = (Done, [\<lparr>name = ''x'', accountNum = 1, balance = Finite (- 10), pinHash = 1234\<rparr>])
   \<and> saveToFile True Map.empty ''accounts_secure.txt''
         [\<lparr>name = ''x'', accountNum = 1, balance = Finite (- 10), pinHash = 1234\<rparr>]
       = (Done, [''accounts_secure.txt'' \<mapsto> overdrawn_file])
   \<and> loadFromFile [''accounts_secure.txt'' \<mapsto> overdrawn_file] ''accounts_secure.txt'' []
       = [\<lparr>name = ''x'', accountNum = 1, balance = Finite (- 10), pinHash = 1234\<rparr>]
   \<and> \<not> balances_nonneg [\<lparr>name = ''x'', accountNum = 1, balance = Finite (- 10), pinHash = 1234\<rparr>]"
    by (simp add: balances_nonneg_def addAccount_def BankAccount_new_def demo_hash_1234
          loadFromFile_def loadAll_overdrawn_file saveToFile_def overdrawn_file_is_saved_text
          dle_def)
  have deposited: "balances_nonneg [alice, bob]
   \<and> deposit demo_hash [alice, bob] 1001 (NaN False) ''1234''
       = (Done, [alice\<lparr>balance := NaN False\<rparr>, bob])
   \<and> \<not> balances_nonneg [alice\<lparr>balance := NaN False\<rparr>, bob]"
    by (simp add: balances_nonneg_def alice_fields bob_fields deposit_def authenticate_def
          verifyPIN_def demo_hash_1234 BankAccount_deposit_def dle_def dadd_def)
  from created deposited show ?thesis by simp
qed

section \<open>Uniqueness of account numbers\<close>

lemma reachable_numbers_unique:
  "reachable hashPIN accounts \<Longrightarrow> numbers_unique accounts"
proof (induction rule: reachable.induct)
  case fresh
  show ?case by (simp add: numbers_unique_def)
next
  case (by_addAccount accounts n ac bal pin)
  then show ?case by (simp add: addAccount_keeps_numbers_unique)
next
  case (by_deposit accounts k amount pin)
  then show ?case by (simp add: deposit_keeps_invariants(1))
next
  case (by_withdraw accounts k amount pin)
  then show ?case by (simp add: withdraw_keeps_invariants(1))
next
  case (by_transfer accounts k k' amount pin)
  then show ?case by (simp add: transfer_keeps_invariants(1))
next
  case (by_updateName accounts k newName pin)
  then show ?case by (simp add: updateName_keeps_invariants(1))
next
  case (by_closeAccount accounts k pin)
  then show ?case by (simp add: closeAccount_keeps_invariants(1))
next
  case (by_sortAccountsByBalance accounts accounts')
  then show ?case
    by (auto simp: sortAccountsByBalance_def intro: permutation_keeps_invariants(1))
next
  case (by_loadFromFile_missing accounts files filename)
  then show ?case by (simp add: loadFromFile_def)
next
  case (by_saveToFile_loadFromFile accounts files filename others)
  then show ?case by (simp add: reload_keeps_invariants(1))
qed

text \<open>
  Claim C3, as the code has it. Starting from the empty ledger, after any sequence of
  calls of \<^verbatim>\<open>addAccount\<close>, \<^verbatim>\<open>deposit\<close>, \<^verbatim>\<open>withdraw\<close>, \<^verbatim>\<open>transfer\<close>, \<^verbatim>\<open>updateName\<close>,
  \<^verbatim>\<open>closeAccount\<close>, \<^verbatim>\<open>sortAccountsByBalance\<close>, \<^verbatim>\<open>loadFromFile\<close> of a path that does not
  exist, and \<^verbatim>\<open>saveToFile\<close> followed by \<^verbatim>\<open>loadFromFile\<close> of the file it wrote, whatever
  their arguments and however they end, no two accounts in the ledger have the same
  number. More generally each of these calls, made on any ledger without two equal
  numbers (such as one loaded from a file without two equal numbers), leaves a ledger
  without two equal numbers. \<^verbatim>\<open>loadFromFile\<close> of any other existing file compares no
  numbers.
\<close>

theorem account_numbers_stay_unique:
  "(reachable hashPIN accounts \<longrightarrow> numbers_unique accounts)
   \<and> (numbers_unique accounts \<longrightarrow>
         numbers_unique (snd (addAccount hashPIN accounts n ac bal pin))
       \<and> numbers_unique (snd (deposit hashPIN accounts k amount pin))
       \<and> numbers_unique (snd (withdraw hashPIN accounts k amount pin))
       \<and> numbers_unique (snd (transfer hashPIN accounts k k' amount pin))
       \<and> numbers_unique (snd (updateName hashPIN accounts k newName pin))
       \<and> numbers_unique (snd (closeAccount hashPIN accounts k pin))
       \<and> (\<forall>accounts'. sortAccountsByBalance accounts accounts' \<longrightarrow> numbers_unique accounts')
       \<and> (files filename = None \<longrightarrow> numbers_unique (loadFromFile files filename accounts))
       \<and> (numbers_fit_int accounts \<longrightarrow>
            numbers_unique
              (loadFromFile (snd (saveToFile True files filename accounts)) filename others)))"
proof (intro conjI impI)
  assume "reachable hashPIN accounts"
  then show "numbers_unique accounts" by (rule reachable_numbers_unique)
next
  assume inv: "numbers_unique accounts"
  show "numbers_unique (snd (addAccount hashPIN accounts n ac bal pin))"
    using inv by (rule addAccount_keeps_numbers_unique)
  show "numbers_unique (snd (deposit hashPIN accounts k amount pin))"
    using inv by (rule deposit_keeps_invariants(1))
  show "numbers_unique (snd (withdraw hashPIN accounts k amount pin))"
    using inv by (rule withdraw_keeps_invariants(1))
  show "numbers_unique (snd (transfer hashPIN accounts k k' amount pin))"
    using inv by (rule transfer_keeps_invariants(1))
  show "numbers_unique (snd (updateName hashPIN accounts k newName pin))"
    using inv by (rule updateName_keeps_invariants(1))
  show "numbers_unique (snd (closeAccount hashPIN accounts k pin))"
    using inv by (rule closeAccount_keeps_invariants(1))
  show "\<forall>accounts'. sortAccountsByBalance accounts accounts' \<longrightarrow> numbers_unique accounts'"
    using inv by (auto simp: sortAccountsByBalance_def intro: permutation_keeps_invariants(1))
  show "numbers_unique (loadFromFile files filename accounts)" if "files filename = None"
    using inv that by (simp add: loadFromFile_def)
  show "numbers_unique
          (loadFromFile (snd (saveToFile True files filename accounts)) filename others)"
    if "numbers_fit_int accounts"
    using that inv by (rule reload_keeps_invariants(1))
qed

text \<open>
  The example ledger is built by two calls of \<^verbatim>\<open>addAccount\<close> on the empty ledger, so
  its numbers are different; a third call with Alice's number is refused, and closing
  Alice's account, sorting, or saving and loading again keeps the numbers different.
\<close>

theorem account_numbers_stay_unique_witness:
  "reachable demo_hash [alice, bob]
   \<and> numbers_unique [alice, bob]
   \<and> addAccount demo_hash [alice, bob] ''Eve'' 1001 (Finite 5) ''0000'' = (Threw DuplicateAccount, [alice, bob])
   \<and> numbers_unique (snd (addAccount demo_hash [alice, bob] ''Carol'' 1003 (Finite 50) ''4321''))
   \<and> numbers_unique (snd (closeAccount demo_hash [alice, bob] 1001 ''1234''))
   \<and> sortAccountsByBalance [alice, bob] [bob, alice] \<and> numbers_unique [bob, alice]
   \<and> numbers_fit_int [alice, bob]
   \<and> numbers_unique
       (loadFromFile (snd (saveToFile True Map.empty ''accounts_secure.txt'' [alice, bob]))
          ''accounts_secure.txt'' [])"
proof -
  have one: "snd (addAccount demo_hash [] ''Alice'' 1001 (Finite 100) ''1234'') = [alice]"
    by (simp add: addAccount_def alice_def)
  have two: "snd (addAccount demo_hash [alice] ''Bob'' 1002 (Finite 50) ''5678'') = [alice, bob]"
    by (simp add: addAccount_def alice_fields bob_def)
  have "reachable demo_hash (snd (addAccount demo_hash [] ''Alice'' 1001 (Finite 100) ''1234''))"
    by (intro reachable.by_addAccount reachable.fresh)
  then have "reachable demo_hash [alice]"
    by (simp only: one)
  then have "reachable demo_hash
      (snd (addAccount demo_hash [alice] ''Bob'' 1002 (Finite 50) ''5678''))"
    by (rule reachable.by_addAccount)
  then have built: "reachable demo_hash [alice, bob]"
    by (simp only: two)
  note unique = account_numbers_stay_unique [where hashPIN = demo_hash and accounts = "[alice, bob]"]
  have inv: "numbers_unique [alice, bob]"
    using unique built by blast
  have dup: "addAccount demo_hash [alice, bob] ''Eve'' 1001 (Finite 5) ''0000''
               = (Threw DuplicateAccount, [alice, bob])"
    by (simp add: addAccount_def alice_fields)
  have sorted: "sortAccountsByBalance [alice, bob] [bob, alice]"
    by (simp add: sortAccountsByBalance_def alice_fields bob_fields dless_def)
  have added: "numbers_unique (snd (addAccount demo_hash [alice, bob] ''Carol'' 1003 (Finite 50) ''4321''))"
    using unique [where n = "''Carol''" and ac = 1003 and bal = "Finite 50" and pin = "''4321''"] inv
    by blast
  have closed: "numbers_unique (snd (closeAccount demo_hash [alice, bob] 1001 ''1234''))"
    using unique [where k = 1001 and pin = "''1234''"] inv
    by blast
  have reordered: "numbers_unique [bob, alice]"
    using unique inv sorted by blast
  have fit: "numbers_fit_int [alice, bob]"
    by (rule sample_numbers_fit_int(1))
  have reloaded: "numbers_unique
       (loadFromFile (snd (saveToFile True Map.empty ''accounts_secure.txt'' [alice, bob]))
          ''accounts_secure.txt'' [])"
    using unique [where files = Map.empty and filename = "''accounts_secure.txt''"
        and others = "[]"] inv fit
    by blast
  from built inv dup added closed sorted reordered fit reloaded show ?thesis by simp
qed

text \<open>
  The file that holds two lines with the number 7 is not one that \<^verbatim>\<open>saveToFile\<close> writes
  from a ledger that the operations built.
\<close>

lemma twin_file_not_saved:
  assumes "reachable hashPIN accounts" and "numbers_fit_int accounts"
  shows "concat (map save accounts) \<noteq> twin_file"
proof
  assume "concat (map save accounts) = twin_file"
  then have "loadFromFile (snd (saveToFile True Map.empty ''accounts_secure.txt'' accounts))
               ''accounts_secure.txt'' [] = [twin_a, twin_b]"
    by (simp add: saveToFile_def loadFromFile_def loadAll_twin_file)
  moreover have "reachable hashPIN
      (loadFromFile (snd (saveToFile True Map.empty ''accounts_secure.txt'' accounts))
         ''accounts_secure.txt'' [])"
    using assms by (rule reachable.by_saveToFile_loadFromFile)
  ultimately have "numbers_unique [twin_a, twin_b]"
    using reachable_numbers_unique [of hashPIN "[twin_a, twin_b]"] by simp
  then show False
    by (simp add: numbers_unique_def twin_a_def twin_b_def)
qed

text \<open>
  Where the claim as written fails: \<^verbatim>\<open>loadFromFile\<close> of that file on a fresh ledger
  loads both accounts.
\<close>

theorem duplicate_numbers_counterexample:
  "numbers_unique []
   \<and> loadFromFile [''accounts_secure.txt'' \<mapsto> twin_file] ''accounts_secure.txt'' []
       = [twin_a, twin_b]
   \<and> accountNum twin_a = accountNum twin_b
   \<and> \<not> numbers_unique [twin_a, twin_b]"
  by (simp add: numbers_unique_def loadFromFile_def loadAll_twin_file twin_a_def twin_b_def)

section \<open>The round trip through the file\<close>

lemma save_rich_alice: "save rich_alice = rich_alice_line"
  by (simp add: rich_alice_def rich_alice_line_def write_simps)

lemma load_rich_alice_line:
  "load rich_alice_line = Some (rich_alice\<lparr>balance := Finite 1234570\<rparr>, [CHR 0x0A])"
  by (simp add: rich_alice_def rich_alice_line_def read_simps)

lemma loadAll_rich_alice_line:
  "loadAll rich_alice_line = [rich_alice\<lparr>balance := Finite 1234570\<rparr>]"
  by (simp add: loadAll.simps [of rich_alice_line] loadAll.simps [of "[CHR 0x0A]"]
        load_rich_alice_line load_end_of_file)

text \<open>
  Claim C1, as the code has it, and a ledger where the code does not do what the claim
  says. \<^verbatim>\<open>saveToFile\<close> followed by \<^verbatim>\<open>loadFromFile\<close> of the same path, on any ledger, gives
  the saved accounts in their order, each with its name, its number and its PIN hash,
  and with the \<^verbatim>\<open>double\<close> nearest to its balance rounded to six significant decimal
  digits: \<^verbatim>\<open>save\<close> writes the balance with the stream's default precision. (The ledger
  that is read back ends before the first account whose balance is infinite or a NaN;
  such a balance is written as a word that is not read as a number.) So the ledger
  that holds one account, Alice with number 1001 and balance 1234567, is written as
  the line \<^verbatim>\<open>1001 1.23457e+06 1234 "Alice"\<close> and read back with the balance 1234570.
\<close>

theorem save_then_load_rounds_the_balance:
  "(numbers_fit_int accounts \<longrightarrow>
      loadFromFile (snd (saveToFile True files filename accounts)) filename others
        = reloaded accounts)
   \<and> saveToFile True Map.empty ''accounts_secure.txt'' [rich_alice]
       = (Done, [''accounts_secure.txt'' \<mapsto> rich_alice_line])
   \<and> loadFromFile [''accounts_secure.txt'' \<mapsto> rich_alice_line] ''accounts_secure.txt'' []
       = [rich_alice\<lparr>balance := Finite 1234570\<rparr>]
   \<and> balance rich_alice = Finite 1234567
   \<and> is_double (Finite 1234567)
   \<and> [rich_alice\<lparr>balance := Finite 1234570\<rparr>] \<noteq> [rich_alice]"
proof -
  have law: "numbers_fit_int accounts \<longrightarrow>
      loadFromFile (snd (saveToFile True files filename accounts)) filename others
        = reloaded accounts"
    by (simp add: saveToFile_then_loadFromFile)
  have saved: "saveToFile True Map.empty ''accounts_secure.txt'' [rich_alice]
                 = (Done, [''accounts_secure.txt'' \<mapsto> rich_alice_line])"
    by (simp add: saveToFile_def save_rich_alice)
  have loaded: "loadFromFile [''accounts_secure.txt'' \<mapsto> rich_alice_line]
                  ''accounts_secure.txt'' [] = [rich_alice\<lparr>balance := Finite 1234570\<rparr>]"
    by (simp add: loadFromFile_def loadAll_rich_alice_line)
  have differs: "balance rich_alice = Finite 1234567
               \<and> [rich_alice\<lparr>balance := Finite 1234570\<rparr>] \<noteq> [rich_alice]"
    by (simp add: rich_alice_def)
  have double: "is_double (Finite 1234567)"
    by (simp add: is_double_def double_simps)
  from law saved loaded differs double show ?thesis by simp
qed

text \<open>
  The example ledger, whose balances 100 and 50 have fewer than six digits, is read
  back as it was saved; Alice's 1234567 is read back as 1234570.
\<close>

theorem save_then_load_rounds_the_balance_witness:
  "numbers_fit_int [alice, bob]
   \<and> loadFromFile (snd (saveToFile True Map.empty ''accounts_secure.txt'' [alice, bob]))
       ''accounts_secure.txt'' [] = [alice, bob]
   \<and> numbers_fit_int [rich_alice]
   \<and> loadFromFile (snd (saveToFile True Map.empty ''accounts_secure.txt'' [rich_alice]))
       ''accounts_secure.txt'' [] = [rich_alice\<lparr>balance := Finite 1234570\<rparr>]"
proof -
  have same: "[alice\<lparr>balance := Finite 100\<rparr>, bob\<lparr>balance := Finite 50\<rparr>] = [alice, bob]"
    by (simp add: alice_def bob_def BankAccount_new_def)
  have two: "loadFromFile (snd (saveToFile True Map.empty ''accounts_secure.txt'' [alice, bob]))
       ''accounts_secure.txt'' [] = [alice, bob]"
    using save_then_load_rounds_the_balance [of "[alice, bob]" Map.empty
        "''accounts_secure.txt''" "[]"] sample_numbers_fit_int(1) same
    by (simp add: alice_fields bob_fields reload_balance_examples)
  have one: "loadFromFile (snd (saveToFile True Map.empty ''accounts_secure.txt'' [rich_alice]))
       ''accounts_secure.txt'' [] = [rich_alice\<lparr>balance := Finite 1234570\<rparr>]"
    using save_then_load_rounds_the_balance [of "[rich_alice]" Map.empty
        "''accounts_secure.txt''" "[]"] sample_numbers_fit_int(2)
    by (simp add: rich_alice_def reload_balance_examples)
  from two one sample_numbers_fit_int show ?thesis by simp
qed
end
